theory Spec2Isabelle
  imports Main "HOL-Library.Word"
begin

section \<open>Range scans over the B-tree: cursor and scanner of \<open>database/range.go\<close>\<close>

subsection \<open>Results, faults and indexing\<close>

text \<open>
  A Go function of this file either returns, returns an \<open>error\<close> value, or panics
  (index out of range, nil dereference, an explicit \<open>panic\<close>). All three are values here:
  \<open>Inr\<close> is a normal return, \<open>Inl (Error msg)\<close> a returned error, the other \<open>Inl\<close>s a panic.
\<close>

datatype error =
    Error string
  | IndexOutOfRange
  | NilDereference
  | Panic string

definition ebind :: "error + 'a \<Rightarrow> ('a \<Rightarrow> error + 'b) \<Rightarrow> error + 'b" where
  "ebind m f = (case m of Inl e \<Rightarrow> Inl e | Inr x \<Rightarrow> f x)"

text \<open>Go's \<open>xs[i]\<close>: a panic outside \<open>0 \<le> i < len(xs)\<close>.\<close>

definition index :: "'a list \<Rightarrow> int \<Rightarrow> error + 'a" where
  "index xs i = (if 0 \<le> i \<and> i < int (length xs) then Inr (xs ! nat i) else Inl IndexOutOfRange)"

text \<open>Go's \<open>xs[i] = v\<close>.\<close>

definition store :: "'a list \<Rightarrow> int \<Rightarrow> 'a \<Rightarrow> error + 'a list" where
  "store xs i v = (if 0 \<le> i \<and> i < int (length xs) then Inr (xs[nat i := v]) else Inl IndexOutOfRange)"

type_synonym bytes = "8 word list"

subsection \<open>Comparison operators\<close>

definition CMP_GE :: int where "CMP_GE = 3"
definition CMP_GT :: int where "CMP_GT = 2"
definition CMP_LT :: int where "CMP_LT = - 2"
definition CMP_LE :: int where "CMP_LE = - 3"

text \<open>\<open>bytes.Compare\<close> of the Go standard library: lexicographic on unsigned bytes.\<close>

fun bytes_Compare :: "bytes \<Rightarrow> bytes \<Rightarrow> int" where
  "bytes_Compare [] [] = 0"
| "bytes_Compare [] (y # ys) = - 1"
| "bytes_Compare (x # xs) [] = 1"
| "bytes_Compare (x # xs) (y # ys) =
     (if x < y then - 1 else if y < x then 1 else bytes_Compare xs ys)"

definition cmpOK :: "bytes \<Rightarrow> int \<Rightarrow> bytes \<Rightarrow> error + bool" where
  "cmpOK key cmp ref =
     (let r = bytes_Compare key ref in
      if cmp = CMP_GE then Inr (r \<ge> 0)
      else if cmp = CMP_GT then Inr (r > 0)
      else if cmp = CMP_LT then Inr (r < 0)
      else if cmp = CMP_LE then Inr (r \<le> 0)
      else Inl (Panic ''what?''))"

subsection \<open>Nodes and the tree\<close>

text \<open>
  Modelled from the spec: the node type and its accessors (\<open>nKeys\<close>, \<open>getKey\<close>, \<open>getVal\<close>,
  \<open>getPtr\<close>, \<open>bNodeType\<close>) and the page store behind \<open>tree.get\<close> are not in the sources.
  A node is the view of section 6: a type tag and its slots in key order, each slot a
  child pointer (internal nodes), a key and a value (leaves); \<open>has_data\<close> is
  \<open>data != nil\<close>. The key count is a 16-bit number, and a slot outside the node is a panic.
\<close>

datatype node_type = BNODE_INODE | BNODE_LEAF

record BNode =
  has_data :: bool
  btype :: node_type
  slots :: "(64 word \<times> bytes \<times> bytes) list"

definition nKeys :: "BNode \<Rightarrow> 16 word" where
  "nKeys node = word_of_nat (length (slots node))"

definition bNodeType :: "BNode \<Rightarrow> node_type" where
  "bNodeType node = btype node"

definition getPtr :: "BNode \<Rightarrow> 16 word \<Rightarrow> error + 64 word" where
  "getPtr node idx = ebind (index (slots node) (uint idx)) (\<lambda>(p, k, v). Inr p)"

definition getKey :: "BNode \<Rightarrow> 16 word \<Rightarrow> error + bytes" where
  "getKey node idx = ebind (index (slots node) (uint idx)) (\<lambda>(p, k, v). Inr k)"

definition getVal :: "BNode \<Rightarrow> 16 word \<Rightarrow> error + bytes" where
  "getVal node idx = ebind (index (slots node) (uint idx)) (\<lambda>(p, k, v). Inr v)"

record BTree =
  root :: "64 word"
  pages :: "64 word \<rightharpoonup> BNode"

definition tree_get :: "BTree \<Rightarrow> 64 word \<Rightarrow> error + BNode" where
  "tree_get t ptr = (case pages t ptr of None \<Rightarrow> Inl (Panic ''bad pointer'') | Some node \<Rightarrow> Inr node)"

subsection \<open>The cursor\<close>

record BIter =
  tree :: BTree
  path :: "BNode list"
  pos :: "16 word list"

definition BIter_Deref :: "BIter \<Rightarrow> error + bytes \<times> bytes" where
  "BIter_Deref iter =
     ebind (index (path iter) (int (length (path iter)) - 1)) (\<lambda>currentNode.
     ebind (index (pos iter) (int (length (pos iter)) - 1)) (\<lambda>idx.
     ebind (getKey currentNode idx) (\<lambda>key.
     ebind (getVal currentNode idx) (\<lambda>val.
     Inr (key, val)))))"

definition BIter_Valid :: "BIter \<Rightarrow> error + bool" where
  "BIter_Valid iter =
     (if length (path iter) = 0 then Inr False
      else ebind (index (path iter) (int (length (path iter)) - 1)) (\<lambda>lastNode.
           if \<not> has_data lastNode then Inr False
           else ebind (index (pos iter) (int (length (pos iter)) - 1)) (\<lambda>p.
                Inr (p < nKeys lastNode))))"

text \<open>The block \<open>if level+1 < len(iter.pos) { ... }\<close> that ends \<open>iterPrev\<close> and \<open>iterNext\<close>:
  the child under the slot of \<open>level\<close> replaces the view at \<open>level+1\<close>, whose slot becomes
  what \<open>slot\<close> computes from the child.\<close>

definition update_kid :: "(BNode \<Rightarrow> 16 word) \<Rightarrow> BIter \<Rightarrow> int \<Rightarrow> error + BIter" where
  "update_kid slot iter level =
     (if level + 1 < int (length (pos iter)) then
        ebind (index (path iter) level) (\<lambda>node.
        ebind (index (pos iter) level) (\<lambda>p.
        ebind (getPtr node p) (\<lambda>ptr.
        ebind (tree_get (tree iter) ptr) (\<lambda>kid.
        ebind (store (path iter) (level + 1) kid) (\<lambda>path'.
        ebind (store (pos iter) (level + 1) (slot kid)) (\<lambda>pos'.
        Inr (iter\<lparr>path := path', pos := pos'\<rparr>)))))))
      else Inr iter)"

function iterPrev :: "BIter \<Rightarrow> int \<Rightarrow> error + BIter" where
  "iterPrev iter level =
     (case index (pos iter) level of
        Inl e \<Rightarrow> Inl e
      | Inr p \<Rightarrow>
          if p > 0 then
            update_kid (\<lambda>kid. nKeys kid - 1) (iter\<lparr>pos := (pos iter)[nat level := p - 1]\<rparr>) level
          else if level > 0 then
            (case iterPrev iter (level - 1) of
               Inl e \<Rightarrow> Inl e
             | Inr iter' \<Rightarrow> update_kid (\<lambda>kid. nKeys kid - 1) iter' level)
          else Inr iter)"
  by pat_completeness auto
termination
  by (relation "measure (\<lambda>(iter, level). nat level)") auto

function iterNext :: "BIter \<Rightarrow> int \<Rightarrow> error + BIter" where
  "iterNext iter level =
     (case index (path iter) level of
        Inl e \<Rightarrow> Inl e
      | Inr currentNode \<Rightarrow>
         (case index (pos iter) level of
            Inl e \<Rightarrow> Inl e
          | Inr p \<Rightarrow>
              if p < nKeys currentNode - 1 then
                update_kid (\<lambda>kid. 0) (iter\<lparr>pos := (pos iter)[nat level := p + 1]\<rparr>) level
              else if level < int (length (path iter)) - 1 then
                (case iterNext iter (level + 1) of
                   Inl e \<Rightarrow> Inl e
                 | Inr iter' \<Rightarrow> update_kid (\<lambda>kid. 0) iter' level)
              else Inr iter))"
  by pat_completeness auto
termination
  by (relation "measure (\<lambda>(iter, level). nat (int (length (path iter)) - level))") auto

definition BIter_Prev :: "BIter \<Rightarrow> error + BIter" where
  "BIter_Prev iter = iterPrev iter (int (length (path iter)) - 1)"

definition BIter_Next :: "BIter \<Rightarrow> error + BIter" where
  "BIter_Next iter = iterNext iter 0"

subsection \<open>Seeking\<close>

text \<open>
  The loop of \<open>SeekLE\<close> follows child pointers until a pointer is 0. Nothing in the loop
  bounds the walk (a page store with a cycle of internal nodes never reaches a leaf), so
  the loop is a partial function: \<open>None\<close> is a walk that never ends. The slot search
  \<open>nodeLookupLE\<close> is not in the sources and is a parameter.
\<close>

partial_function (option) SeekLE_loop ::
  "(BNode \<Rightarrow> bytes \<Rightarrow> 16 word) \<Rightarrow> BTree \<Rightarrow> bytes \<Rightarrow> 64 word \<Rightarrow> BIter \<Rightarrow> (error + BIter) option" where
  "SeekLE_loop search t key ptr iter =
     (if ptr = 0 then Some (Inr iter)
      else case tree_get t ptr of
        Inl e \<Rightarrow> Some (Inl e)
      | Inr node \<Rightarrow>
          let idx = search node key;
              iter' = iter\<lparr>path := path iter @ [node], pos := pos iter @ [idx]\<rparr>
          in if bNodeType node = BNODE_INODE then
               (case getPtr node idx of
                  Inl e \<Rightarrow> Some (Inl e)
                | Inr ptr' \<Rightarrow> SeekLE_loop search t key ptr' iter')
             else SeekLE_loop search t key 0 iter')"

declare SeekLE_loop.simps [code]

definition SeekLE :: "(BNode \<Rightarrow> bytes \<Rightarrow> 16 word) \<Rightarrow> BTree \<Rightarrow> bytes \<Rightarrow> (error + BIter) option" where
  "SeekLE search t key = SeekLE_loop search t key (root t) \<lparr>tree = t, path = [], pos = []\<rparr>"

definition Seek :: "(BNode \<Rightarrow> bytes \<Rightarrow> 16 word) \<Rightarrow> BTree \<Rightarrow> bytes \<Rightarrow> int \<Rightarrow> (error + BIter) option" where
  "Seek search t key cmp =
     (case SeekLE search t key of
        None \<Rightarrow> None
      | Some r \<Rightarrow> Some (
          ebind r (\<lambda>iter.
          if cmp \<noteq> CMP_LE then
            ebind (BIter_Valid iter) (\<lambda>v.
            if v then
              ebind (BIter_Deref iter) (\<lambda>(cur, _).
              ebind (cmpOK cur cmp key) (\<lambda>ok.
              if \<not> ok then (if cmp > 0 then BIter_Next iter else BIter_Prev iter)
              else Inr iter))
            else Inr iter)
          else Inr iter)))"

subsection \<open>Values, records and the schema\<close>

text \<open>
  Modelled from the spec: the declarations of \<open>Value\<close>, \<open>Record\<close> and \<open>TableDef\<close> are not
  in the sources. A value carries its type tag beside an integer and a byte-string payload;
  a record pairs column names with values by position; a table definition holds the
  columns, their types, the number of leading primary-key columns, the secondary indexes
  and one key-space prefix for the primary key and for each index. The fields of \<open>TableDef\<close>
  carry the prefix \<open>td_\<close>, since \<open>Record\<close> has a field \<open>Cols\<close> too.
\<close>

record Value =
  Type :: "32 word"
  I64 :: "64 word"
  Str :: bytes

definition zeroValue :: Value where
  "zeroValue = \<lparr>Type = 0, I64 = 0, Str = []\<rparr>"

record Record =
  Cols :: "string list"
  Vals :: "Value list"

record TableDef =
  td_Name :: string
  td_Types :: "32 word list"
  td_Cols :: "string list"
  td_PKeys :: int
  td_Indexes :: "string list list"
  td_Prefix :: bytes
  td_IndexPrefix :: "bytes list"

text \<open>
  Modelled from the spec: \<open>Record.Get\<close> is not in the sources. A column is looked up by
  name; the result is nil (\<open>None\<close>) when the record has no such column.
\<close>

definition Record_Get :: "Record \<Rightarrow> string \<Rightarrow> Value option" where
  "Record_Get rec col = map_of (zip (Cols rec) (Vals rec)) col"

text \<open>Go's \<open>xs[:n]\<close> and \<open>xs[n:]\<close>, for slices whose capacity is their length.\<close>

definition slice_to :: "'a list \<Rightarrow> int \<Rightarrow> error + 'a list" where
  "slice_to xs n = (if 0 \<le> n \<and> n \<le> int (length xs) then Inr (take (nat n) xs) else Inl IndexOutOfRange)"

definition slice_from :: "'a list \<Rightarrow> int \<Rightarrow> error + 'a list" where
  "slice_from xs n = (if 0 \<le> n \<and> n \<le> int (length xs) then Inr (drop (nat n) xs) else Inl IndexOutOfRange)"

text \<open>A \<open>for ... range\<close> loop that computes one element per item and panics with the first
  item that panics.\<close>

fun traverse :: "('a \<Rightarrow> error + 'b) \<Rightarrow> 'a list \<Rightarrow> error + 'b list" where
  "traverse f [] = Inr []"
| "traverse f (x # xs) = ebind (f x) (\<lambda>y. ebind (traverse f xs) (\<lambda>ys. Inr (y # ys)))"

subsection \<open>The collaborators\<close>

text \<open>
  The functions that \<open>range.go\<close> calls and that are not in the sources are parameters of
  the model, collected in one record: the catalogue lookup, index resolution, the key
  codec, the slot search of a node, the column index and the point lookup by primary key.
  \<open>decodeValues\<close> fills the slots it is given and so returns their new contents;
  \<open>dbGet\<close> returns its two results and the record it was given, as it leaves it.
\<close>

record 'db ext =
  GetTableDef :: "'db \<Rightarrow> string \<Rightarrow> BTree \<Rightarrow> TableDef option"
  findIndex :: "TableDef \<Rightarrow> string list \<Rightarrow> error + int"
  encodeKeyPartial :: "bytes \<Rightarrow> bytes \<Rightarrow> Value list \<Rightarrow> TableDef \<Rightarrow> string list \<Rightarrow> int \<Rightarrow> error + bytes"
  nodeLookupLE :: "BNode \<Rightarrow> bytes \<Rightarrow> 16 word"
  decodeValues :: "bytes \<Rightarrow> Value list \<Rightarrow> error + Value list"
  ColIndex :: "TableDef \<Rightarrow> string \<Rightarrow> int"
  dbGet :: "'db option \<Rightarrow> TableDef \<Rightarrow> Record \<Rightarrow> BTree \<Rightarrow> error + (bool \<times> error option) \<times> Record"

subsection \<open>The scanner\<close>

text \<open>The pointer fields (\<open>db\<close>, \<open>tdef\<close>, \<open>iter\<close>) are nil (\<open>None\<close>) before setup; a nil
  slice is the empty byte string.\<close>

record 'db Scanner =
  db :: "'db option"
  indexNo :: int
  Cmp1 :: int
  Cmp2 :: int
  Key1 :: Record
  Key2 :: Record
  tdef :: "TableDef option"
  iter :: "BIter option"
  keyEnd :: bytes
  keyStart :: bytes

text \<open>
  \<open>dbScan\<close> writes into the request it is given. The model returns the request as the call
  leaves it together with the outcome: \<open>None\<close> for a nil error, \<open>Some (Error msg)\<close> for a
  returned error, any other \<open>Some\<close> for a panic. The outer \<open>option\<close> is the seek that never
  ends.
\<close>

definition dbScan ::
  "'db ext \<Rightarrow> 'db \<Rightarrow> TableDef \<Rightarrow> 'db Scanner \<Rightarrow> BTree \<Rightarrow> (error option \<times> 'db Scanner) option" where
  "dbScan E d td req t =
     (if \<not> ((Cmp1 req > 0 \<and> Cmp2 req < 0) \<or> (Cmp2 req > 0 \<and> Cmp1 req < 0))
      then Some (Some (Error ''bad range''), req)
      else case findIndex E td (Cols (Key1 req)) of
        Inl err \<Rightarrow> Some (Some err, req)
      | Inr ino \<Rightarrow>
         (case ebind (slice_to (td_Cols td) (td_PKeys td)) (\<lambda>pk.
               if ino \<ge> 0 then
                 ebind (index (td_Indexes td) ino) (\<lambda>ix.
                 ebind (index (td_IndexPrefix td) ino) (\<lambda>px. Inr (ix, px)))
               else Inr (pk, td_Prefix td)) of
            Inl e \<Rightarrow> Some (Some e, req)
          | Inr (ix, prefix) \<Rightarrow>
             (let req1 = req\<lparr>db := Some d, tdef := Some td, indexNo := ino\<rparr> in
              case encodeKeyPartial E [] prefix (Vals (Key1 req1)) td ix (Cmp1 req1) of
                Inl e \<Rightarrow> Some (Some e, req1)
              | Inr ks \<Rightarrow>
                 (let req2 = req1\<lparr>keyStart := ks\<rparr> in
                  case encodeKeyPartial E [] prefix (Vals (Key2 req2)) td ix (Cmp2 req2) of
                    Inl e \<Rightarrow> Some (Some e, req2)
                  | Inr ke \<Rightarrow>
                     (let req3 = req2\<lparr>keyEnd := ke\<rparr> in
                      case Seek (nodeLookupLE E) t (keyStart req3) (Cmp1 req3) of
                        None \<Rightarrow> None
                      | Some (Inl e) \<Rightarrow> Some (Some e, req3)
                      | Some (Inr it) \<Rightarrow> Some (None, req3\<lparr>iter := Some it\<rparr>))))))"

definition Scan ::
  "'db ext \<Rightarrow> 'db \<Rightarrow> string \<Rightarrow> 'db Scanner \<Rightarrow> BTree \<Rightarrow> (error option \<times> 'db Scanner) option" where
  "Scan E d table req t =
     (case GetTableDef E d table t of
        None \<Rightarrow> Some (Some (Error (''table not found: '' @ table)), req)
      | Some td \<Rightarrow> dbScan E d td req t)"

definition Scanner_Valid :: "'db Scanner \<Rightarrow> error + bool" where
  "Scanner_Valid sc =
     (case iter sc of
        None \<Rightarrow> Inl NilDereference
      | Some it \<Rightarrow>
          ebind (BIter_Valid it) (\<lambda>v.
          if \<not> v then Inr False
          else ebind (BIter_Deref it) (\<lambda>(key, _).
               ebind (cmpOK key (Cmp2 sc) (keyEnd sc)) (\<lambda>result.
               ebind (cmpOK key (Cmp1 sc) (keyStart sc)) (\<lambda>startRes.
               Inr (result \<and> startRes))))))"

definition Scanner_Next :: "'db Scanner \<Rightarrow> error + 'db Scanner" where
  "Scanner_Next sc =
     ebind (Scanner_Valid sc) (\<lambda>v.
     if \<not> v then Inr sc
     else case iter sc of
       None \<Rightarrow> Inl NilDereference
     | Some it \<Rightarrow>
         if Cmp1 sc > 0 then ebind (BIter_Next it) (\<lambda>it'. Inr (sc\<lparr>iter := Some it'\<rparr>))
         else ebind (BIter_Prev it) (\<lambda>it'. Inr (sc\<lparr>iter := Some it'\<rparr>)))"

text \<open>
  The lines of \<open>Scanner.Deref\<close> that turn the key of an index entry into the record of the
  row's primary key: the index's columns are decoded from the key behind its 4-byte prefix,
  and the primary-key columns are picked from them by name.
\<close>

definition index_entry_pk :: "'db ext \<Rightarrow> TableDef \<Rightarrow> int \<Rightarrow> bytes \<Rightarrow> error + Record" where
  "index_entry_pk E td ino key =
     ebind (index (td_Indexes td) ino) (\<lambda>ix.
     ebind (traverse (\<lambda>col. ebind (index (td_Types td) (ColIndex E td col)) (\<lambda>ty.
                              Inr (zeroValue\<lparr>Type := ty\<rparr>))) ix) (\<lambda>slots.
     ebind (slice_from key 4) (\<lambda>k4.
     ebind (decodeValues E k4 slots) (\<lambda>ival.
     ebind (slice_to (td_Cols td) (td_PKeys td)) (\<lambda>pkcols.
     ebind (traverse (\<lambda>col. case Record_Get \<lparr>Cols = ix, Vals = ival\<rparr> col of
                               None \<Rightarrow> Inl NilDereference
                             | Some v \<Rightarrow> Inr v) pkcols) (\<lambda>pkvals.
     Inr \<lparr>Cols = pkcols, Vals = pkvals\<rparr>))))))"

text \<open>
  \<open>Scanner.Deref\<close> has no result: it writes the row into \<open>rec\<close> and may print one line.
  The model returns the record as the call leaves it and the lines printed. The scanner is
  only read.
\<close>

definition Scanner_Deref ::
  "'db ext \<Rightarrow> 'db Scanner \<Rightarrow> Record \<Rightarrow> BTree \<Rightarrow> error + Record \<times> string list" where
  "Scanner_Deref E sc rec t =
     ebind (Scanner_Valid sc) (\<lambda>v.
     if \<not> v then Inr (rec, [])
     else case tdef sc of
       None \<Rightarrow> Inl NilDereference
     | Some td \<Rightarrow>
        (case iter sc of
           None \<Rightarrow> Inl NilDereference
         | Some it \<Rightarrow>
            ebind (BIter_Deref it) (\<lambda>(key, val).
            if indexNo sc < 0 then
              ebind (traverse (\<lambda>i. ebind (index (td_Types td) i) (\<lambda>ty.
                                     Inr (zeroValue\<lparr>Type := ty\<rparr>)))
                       (map int [0..<length (td_Cols td)])) (\<lambda>values.
              ebind (slice_from key 4) (\<lambda>k4.
              ebind (slice_to values (td_PKeys td)) (\<lambda>pkslots.
              ebind (decodeValues E k4 pkslots) (\<lambda>pkvals.
              ebind (slice_from values (td_PKeys td)) (\<lambda>restslots.
              ebind (decodeValues E val restslots) (\<lambda>restvals.
              Inr (\<lparr>Cols = td_Cols td, Vals = pkvals @ restvals\<rparr>, [])))))))
            else
              ebind (index_entry_pk E td (indexNo sc) key) (\<lambda>pk.
              ebind (dbGet E (db sc) td pk t) (\<lambda>((ok, err), rec').
              Inr (rec', if \<not> ok \<and> err \<noteq> None
                         then [''Error getting record from DB''] else []))))))"

subsection \<open>Driving a scan\<close>

text \<open>
  The caller's loop \<open>for sc.Valid() { sc.Deref(&rec); sc.Next() }\<close>, recording the cursor
  key of every position it visits. The loop has no bound of its own, so it runs on fuel:
  \<open>None\<close> is a loop still running when the fuel is spent.
\<close>

definition cursor_key :: "'db Scanner \<Rightarrow> error + bytes" where
  "cursor_key sc =
     (case iter sc of
        None \<Rightarrow> Inl NilDereference
      | Some it \<Rightarrow> ebind (BIter_Deref it) (\<lambda>(key, _). Inr key))"

fun scan_keys :: "nat \<Rightarrow> 'db Scanner \<Rightarrow> (error + bytes list) option" where
  "scan_keys 0 sc = None"
| "scan_keys (Suc n) sc =
     (case Scanner_Valid sc of
        Inl e \<Rightarrow> Some (Inl e)
      | Inr v \<Rightarrow>
          if \<not> v then Some (Inr [])
          else
            (case ebind (cursor_key sc) (\<lambda>k. ebind (Scanner_Next sc) (\<lambda>sc'. Inr (k, sc'))) of
               Inl e \<Rightarrow> Some (Inl e)
             | Inr (k, sc') \<Rightarrow>
                (case scan_keys n sc' of
                   None \<Rightarrow> None
                 | Some (Inl e) \<Rightarrow> Some (Inl e)
                 | Some (Inr ks) \<Rightarrow> Some (Inr (k # ks)))))"

text \<open>One round of that loop with the row fetched: \<open>sc.Deref(&rec); sc.Next()\<close>. It
  returns the scanner after the step, the record and the lines printed.\<close>

definition Deref_then_Next ::
  "'db ext \<Rightarrow> 'db Scanner \<Rightarrow> Record \<Rightarrow> BTree \<Rightarrow> error + 'db Scanner \<times> Record \<times> string list" where
  "Deref_then_Next E sc rec t =
     ebind (Scanner_Deref E sc rec t) (\<lambda>(rec', out).
     ebind (Scanner_Next sc) (\<lambda>sc'.
     Inr (sc', rec', out)))"

subsection \<open>The slot search and index resolution of the spec\<close>

text \<open>
  Modelled from the spec: \<open>nodeLookupLE\<close> is not in the sources. Section 4.3 has it locate
  the last slot whose key is \<open><=\<close> the key sought. The spec names no slot for a node
  without such a key; the model answers slot 0 there, and it is only ever applied below to
  nodes that hold such a key.
\<close>

fun lookupLE_from :: "(64 word \<times> bytes \<times> bytes) list \<Rightarrow> bytes \<Rightarrow> 16 word \<Rightarrow> 16 word \<Rightarrow> 16 word" where
  "lookupLE_from [] key i found = found"
| "lookupLE_from ((p, k, v) # ss) key i found =
     lookupLE_from ss key (i + 1) (if bytes_Compare k key \<le> 0 then i else found)"

definition lookupLE :: "BNode \<Rightarrow> bytes \<Rightarrow> 16 word" where
  "lookupLE node key = lookupLE_from (slots node) key 0 0"

text \<open>
  Modelled from the spec: \<open>findIndex\<close> is not in the sources. Section 4.2 matches the
  requested columns against the primary key's column prefix first, then against each
  secondary index's column prefix in declared order; the primary key answers -1, an index
  its number, and no match is the error of an unindexed query.
\<close>

fun findIndex_from :: "string list list \<Rightarrow> string list \<Rightarrow> int \<Rightarrow> error + int" where
  "findIndex_from [] cols i = Inl (Error ''no index found'')"
| "findIndex_from (ix # ixs) cols i =
     (if take (length cols) ix = cols then Inr i else findIndex_from ixs cols (i + 1))"

definition findIndex_spec :: "TableDef \<Rightarrow> string list \<Rightarrow> error + int" where
  "findIndex_spec td cols =
     (if take (length cols) (take (nat (td_PKeys td)) (td_Cols td)) = cols then Inr (- 1)
      else findIndex_from (td_Indexes td) cols 0)"

subsection \<open>What a boundary comparison asks of a key\<close>

text \<open>
  The four operators as the spec reads them, on the byte order of keys: \<open>>=\<close>, \<open>>\<close>,
  \<open><\<close>, \<open><=\<close>. No key satisfies a number that is none of the four.
\<close>

definition satisfies :: "bytes \<Rightarrow> int \<Rightarrow> bytes \<Rightarrow> bool" where
  "satisfies key cmp ref =
     ((cmp = CMP_GE \<and> bytes_Compare key ref \<ge> 0) \<or>
      (cmp = CMP_GT \<and> bytes_Compare key ref > 0) \<or>
      (cmp = CMP_LT \<and> bytes_Compare key ref < 0) \<or>
      (cmp = CMP_LE \<and> bytes_Compare key ref \<le> 0))"

definition is_cmp :: "int \<Rightarrow> bool" where
  "is_cmp c = (c = CMP_GE \<or> c = CMP_GT \<or> c = CMP_LT \<or> c = CMP_LE)"

subsection \<open>A table and two trees to run the model on\<close>

text \<open>
  The table \<open>T(a, b)\<close> of the spec's scenario: primary key \<open>a\<close>, an index on \<open>(b, a)\<close> and
  one on \<open>(a, b)\<close>. The codec is not in the sources; the stand-in below writes the prefix
  and then one byte per value, which is all the runs below need of it: that keys of the
  same table compare as their column values do. The point lookup stand-in always misses.
\<close>

definition bval :: "8 word \<Rightarrow> Value" where
  "bval b = \<lparr>Type = 2, I64 = 0, Str = [b]\<rparr>"

definition ex_encode :: "bytes \<Rightarrow> bytes \<Rightarrow> Value list \<Rightarrow> TableDef \<Rightarrow> string list \<Rightarrow> int \<Rightarrow> error + bytes" where
  "ex_encode out prefix vs td ix cmp = Inr (out @ prefix @ concat (map Str vs))"

definition ex_decode :: "bytes \<Rightarrow> Value list \<Rightarrow> error + Value list" where
  "ex_decode bs out =
     (if length bs = length out then Inr (map (\<lambda>(b, v). v\<lparr>Str := [b]\<rparr>) (zip bs out))
      else Inl (Panic ''bad key''))"

definition ex_ColIndex :: "TableDef \<Rightarrow> string \<Rightarrow> int" where
  "ex_ColIndex td col =
     (if col \<in> set (td_Cols td) then int (length (takeWhile (\<lambda>c. c \<noteq> col) (td_Cols td))) else - 1)"

definition ex_tdef :: TableDef where
  "ex_tdef = \<lparr>td_Name = ''T'', td_Types = [2, 2], td_Cols = [''a'', ''b''], td_PKeys = 1,
     td_Indexes = [[''b'', ''a''], [''a'', ''b'']], td_Prefix = [0, 0, 0, 1],
     td_IndexPrefix = [[0, 0, 0, 2], [0, 0, 0, 3]]\<rparr>"

definition ex_ext :: "unit ext" where
  "ex_ext = \<lparr>GetTableDef = (\<lambda>d name t. if name = ''T'' then Some ex_tdef else None),
     findIndex = findIndex_spec, encodeKeyPartial = ex_encode, nodeLookupLE = lookupLE,
     decodeValues = ex_decode, ColIndex = ex_ColIndex,
     dbGet = (\<lambda>d td rec t. Inr ((False, None), rec))\<rparr>"

text \<open>The key of the row \<open>a = k\<close>, and the rows \<open>a = 1..5\<close> with \<open>b = 5, 3, 1, 4, 2\<close>: in one
  leaf that is the root, and in two leaves under an internal root.\<close>

definition pkey :: "8 word \<Rightarrow> bytes" where
  "pkey k = [0, 0, 0, 1, k]"

definition leaf123 :: BNode where
  "leaf123 = \<lparr>has_data = True, btype = BNODE_LEAF,
     slots = [(0, pkey 1, [5]), (0, pkey 2, [3]), (0, pkey 3, [1])]\<rparr>"

definition leaf45 :: BNode where
  "leaf45 = \<lparr>has_data = True, btype = BNODE_LEAF,
     slots = [(0, pkey 4, [4]), (0, pkey 5, [2])]\<rparr>"

definition inode :: BNode where
  "inode = \<lparr>has_data = True, btype = BNODE_INODE,
     slots = [(2, pkey 1, []), (3, pkey 4, [])]\<rparr>"

definition tree1 :: BTree where
  "tree1 = \<lparr>root = 2, pages = [2 \<mapsto> leaf123]\<rparr>"

definition tree2 :: BTree where
  "tree2 = \<lparr>root = 1, pages = [1 \<mapsto> inode, 2 \<mapsto> leaf123, 3 \<mapsto> leaf45]\<rparr>"

definition tree0 :: BTree where
  "tree0 = \<lparr>root = 0, pages = Map.empty\<rparr>"

text \<open>A tree that holds the entries \<open>(b = 3, a = 2)\<close> and \<open>(b = 3, a = 4)\<close> of the index
  on \<open>(b, a)\<close>.\<close>

definition leaf_ix :: BNode where
  "leaf_ix = \<lparr>has_data = True, btype = BNODE_LEAF,
     slots = [(0, [0, 0, 0, 2, 3, 2], []), (0, [0, 0, 0, 2, 3, 4], [])]\<rparr>"

definition tree_ix :: BTree where
  "tree_ix = \<lparr>root = 4, pages = [4 \<mapsto> leaf_ix]\<rparr>"

text \<open>A fresh request with bounds on the given columns.\<close>

definition request :: "int \<Rightarrow> Record \<Rightarrow> int \<Rightarrow> Record \<Rightarrow> unit Scanner" where
  "request c1 k1 c2 k2 = \<lparr>db = None, indexNo = 0, Cmp1 = c1, Cmp2 = c2, Key1 = k1, Key2 = k2,
     tdef = None, iter = None, keyEnd = [], keyStart = []\<rparr>"

definition on_a :: "8 word \<Rightarrow> Record" where
  "on_a k = \<lparr>Cols = [''a''], Vals = [bval k]\<rparr>"

text \<open>The scanner that a successful setup over the primary key leaves behind.\<close>

definition scanning :: "int \<Rightarrow> 8 word \<Rightarrow> int \<Rightarrow> 8 word \<Rightarrow> BIter \<Rightarrow> unit Scanner" where
  "scanning c1 k1 c2 k2 it = \<lparr>db = Some (), indexNo = - 1, Cmp1 = c1, Cmp2 = c2,
     Key1 = on_a k1, Key2 = on_a k2, tdef = Some ex_tdef, iter = Some it,
     keyEnd = pkey k2, keyStart = pkey k1\<rparr>"

text \<open>A descending request whose start bound is on \<open>(a, b)\<close> and whose lower bound is on
  \<open>a\<close> alone, and the scanner that its setup over the empty tree leaves behind.\<close>

definition desc_request :: "unit Scanner" where
  "desc_request = request CMP_LE \<lparr>Cols = [''a'', ''b''], Vals = [bval 4, bval 9]\<rparr> CMP_GE (on_a 2)"

definition desc_scanner :: "unit Scanner" where
  "desc_scanner = \<lparr>db = Some (), indexNo = 1, Cmp1 = CMP_LE, Cmp2 = CMP_GE,
     Key1 = \<lparr>Cols = [''a'', ''b''], Vals = [bval 4, bval 9]\<rparr>, Key2 = on_a 2,
     tdef = Some ex_tdef, iter = Some \<lparr>tree = tree0, path = [], pos = []\<rparr>,
     keyEnd = [0, 0, 0, 3, 2], keyStart = [0, 0, 0, 3, 4, 9]\<rparr>"

text \<open>A scanner over the index on \<open>(b, a)\<close>, at the entry \<open>(3, 2)\<close>, for the range \<open>b = 3\<close>
  with the upper bound padded.\<close>

definition ix_scanner :: "unit Scanner" where
  "ix_scanner = \<lparr>db = Some (), indexNo = 0, Cmp1 = CMP_GE, Cmp2 = CMP_LE,
     Key1 = \<lparr>Cols = [''b''], Vals = [bval 3]\<rparr>, Key2 = \<lparr>Cols = [''b''], Vals = [bval 3]\<rparr>,
     tdef = Some ex_tdef, iter = Some \<lparr>tree = tree_ix, path = [leaf_ix], pos = [0]\<rparr>,
     keyEnd = [0, 0, 0, 2, 3, 255], keyStart = [0, 0, 0, 2, 3]\<rparr>"

section \<open>Properties\<close>

declare iterPrev.simps [simp del]
declare iterNext.simps [simp del]

lemma ebind_simps [simp]: "ebind (Inl e) f = Inl e" "ebind (Inr x) f = f x"
  by (simp_all add: ebind_def)

lemmas cmp_defs = CMP_GE_def CMP_GT_def CMP_LT_def CMP_LE_def
lemmas node_defs = nKeys_def bNodeType_def getPtr_def getKey_def getVal_def tree_get_def
  index_def store_def
lemmas cursor_defs = BIter_Valid_def BIter_Deref_def BIter_Next_def BIter_Prev_def update_kid_def
  iterNext.simps iterPrev.simps
lemmas scanner_defs = Scanner_Valid_def Scanner_Next_def cursor_key_def scanning_def cmpOK_def
lemmas ex_defs = leaf123_def leaf45_def inode_def tree1_def tree2_def pkey_def

subsection \<open>The cursor: validity and dereference\<close>

lemma cmpOK_True_iff: "cmpOK key cmp ref = Inr True \<longleftrightarrow> satisfies key cmp ref"
  by (auto simp: cmpOK_def satisfies_def Let_def cmp_defs)

lemma BIter_Valid_empty: "path it = [] \<Longrightarrow> BIter_Valid it = Inr False"
  by (simp add: BIter_Valid_def)

lemma BIter_Valid_True_iff:
  "BIter_Valid it = Inr True \<longleftrightarrow>
     (path it \<noteq> [] \<and> (\<exists>node p. index (path it) (int (length (path it)) - 1) = Inr node \<and> has_data node
        \<and> index (pos it) (int (length (pos it)) - 1) = Inr p \<and> p < nKeys node))"
proof (cases "path it = []")
  case True
  then show ?thesis by (simp add: BIter_Valid_def)
next
  case False
  show ?thesis
  proof (cases "index (path it) (int (length (path it)) - 1)")
    case (Inl e)
    then show ?thesis using False by (simp add: BIter_Valid_def)
  next
    case (Inr node)
    show ?thesis
    proof (cases "index (pos it) (int (length (pos it)) - 1)")
      case (Inl e)
      then show ?thesis using False Inr by (simp add: BIter_Valid_def)
    next
      case p: (Inr p)
      then show ?thesis using False Inr by (simp add: BIter_Valid_def)
    qed
  qed
qed

text \<open>A slot below the 16-bit key count is a slot of the node.\<close>

lemma slot_in_node:
  assumes "p < nKeys node"
  shows "\<exists>s. index (slots node) (uint p) = Inr s"
proof -
  have "unat p < unat (nKeys node)" using assms by (simp only: word_less_nat_alt)
  also have "\<dots> \<le> length (slots node)"
    unfolding nKeys_def by (simp only: unat_of_nat mod_less_eq_dividend)
  finally have "uint p < int (length (slots node))" by (simp only: uint_nat of_nat_less_iff)
  moreover have "0 \<le> uint p" by simp
  ultimately show ?thesis by (simp only: index_def if_True simp_thms) blast
qed

text \<open>\<open>Valid\<close> is enough for \<open>Deref\<close>: at a valid position there is a key and a value.\<close>

lemma Valid_Deref:
  assumes "BIter_Valid it = Inr True"
  shows "\<exists>key val. BIter_Deref it = Inr (key, val)"
proof -
  from assms obtain node p where n: "index (path it) (int (length (path it)) - 1) = Inr node"
    and p: "index (pos it) (int (length (pos it)) - 1) = Inr p" "p < nKeys node"
    unfolding BIter_Valid_True_iff by blast
  from slot_in_node [OF p(2)] obtain s where s: "index (slots node) (uint p) = Inr s" by blast
  obtain a k v where "s = (a, k, v)" by (cases s)
  then show ?thesis using n p(1) s by (simp add: BIter_Deref_def getKey_def getVal_def)
qed

lemma BIter_Deref_empty: "path it = [] \<Longrightarrow> BIter_Deref it = Inl IndexOutOfRange"
  by (simp add: BIter_Deref_def index_def)

lemma BIter_Next_empty: "path it = [] \<Longrightarrow> BIter_Next it = Inl IndexOutOfRange"
  by (simp add: BIter_Next_def iterNext.simps index_def)

lemma BIter_Prev_empty: "path it = [] \<Longrightarrow> pos it = [] \<Longrightarrow> BIter_Prev it = Inl IndexOutOfRange"
  by (simp add: BIter_Prev_def iterPrev.simps index_def)

subsection \<open>Seeking an empty tree\<close>

lemma SeekLE_empty: "root t = 0 \<Longrightarrow> SeekLE lk t key = Some (Inr \<lparr>tree = t, path = [], pos = []\<rparr>)"
  unfolding SeekLE_def by (subst SeekLE_loop.simps) simp

lemma Seek_empty: "root t = 0 \<Longrightarrow> Seek lk t key cmp = Some (Inr \<lparr>tree = t, path = [], pos = []\<rparr>)"
  by (simp add: Seek_def SeekLE_empty BIter_Valid_empty)

lemma Scanner_Valid_invalid_cursor:
  "iter sc = Some it \<Longrightarrow> BIter_Valid it = Inr False \<Longrightarrow> Scanner_Valid sc = Inr False"
  by (simp add: Scanner_Valid_def)

text \<open>
  C10. In a tree whose root pointer is 0 the seek loop does not run: for every key, every
  operator number and every slot search, \<open>Seek\<close> returns, without a panic, the cursor with
  the empty path; \<open>Valid\<close> is false on it, and so is \<open>Valid\<close> of every scanner that holds
  it: the scan is exhausted before its first row.
\<close>

theorem Seek_empty_tree:
  assumes "root t = 0"
  shows "Seek lk t key cmp = Some (Inr \<lparr>tree = t, path = [], pos = []\<rparr>)
       \<and> BIter_Valid \<lparr>tree = t, path = [], pos = []\<rparr> = Inr False
       \<and> (\<forall>sc :: 'db Scanner. iter sc = Some \<lparr>tree = t, path = [], pos = []\<rparr>
             \<longrightarrow> Scanner_Valid sc = Inr False)"
  using assms by (simp add: Seek_empty BIter_Valid_empty Scanner_Valid_invalid_cursor)

theorem Seek_empty_tree_witness:
  "root tree0 = 0
   \<and> Seek lookupLE tree0 (pkey 2) CMP_GE = Some (Inr \<lparr>tree = tree0, path = [], pos = []\<rparr>)
   \<and> BIter_Valid \<lparr>tree = tree0, path = [], pos = []\<rparr> = Inr False
   \<and> iter (scanning CMP_GE 2 CMP_LE 3 \<lparr>tree = tree0, path = [], pos = []\<rparr>)
        = Some \<lparr>tree = tree0, path = [], pos = []\<rparr>
   \<and> Scanner_Valid (scanning CMP_GE 2 CMP_LE 3 \<lparr>tree = tree0, path = [], pos = []\<rparr>) = Inr False"
proof -
  have r: "root tree0 = 0" by (simp add: tree0_def)
  have i: "iter (scanning CMP_GE 2 CMP_LE 3 \<lparr>tree = tree0, path = [], pos = []\<rparr>)
        = Some \<lparr>tree = tree0, path = [], pos = []\<rparr>" by (simp add: scanning_def)
  from Seek_empty_tree [OF r, of lookupLE "pkey 2" CMP_GE] r i show ?thesis by blast
qed

subsection \<open>The scanner's validity check\<close>

lemma both_cmpOK:
  "ebind (cmpOK key c2 ke) (\<lambda>result. ebind (cmpOK key c1 ks) (\<lambda>startRes. Inr (result \<and> startRes))) = Inr True
     \<longleftrightarrow> satisfies key c1 ks \<and> satisfies key c2 ke"
proof (cases "cmpOK key c2 ke")
  case (Inl e)
  then have "\<not> satisfies key c2 ke" by (simp add: cmpOK_True_iff [symmetric])
  then show ?thesis using Inl by simp
next
  case r: (Inr result)
  show ?thesis
  proof (cases "cmpOK key c1 ks")
    case (Inl e)
    then have "\<not> satisfies key c1 ks" by (simp add: cmpOK_True_iff [symmetric])
    then show ?thesis using r Inl by simp
  next
    case (Inr startRes)
    then show ?thesis using r by (simp add: cmpOK_True_iff [symmetric] conj_commute)
  qed
qed

text \<open>Seeking and stepping keep the path and the slots of a cursor equally long, so
  \<open>Valid\<close> of a cursor that a seek has returned never indexes outside them.\<close>

lemma store_length: "store xs i v = Inr ys \<Longrightarrow> length ys = length xs"
  by (auto simp: store_def split: if_splits)

lemma update_kid_lengths:
  assumes "update_kid slot it level = Inr it'"
  shows "length (path it') = length (path it) \<and> length (pos it') = length (pos it)"
proof (cases "level + 1 < int (length (pos it))")
  case False
  then show ?thesis using assms by (simp add: update_kid_def)
next
  case True
  from assms True obtain kid path' pos' where
    "store (path it) (level + 1) kid = Inr path'" "store (pos it) (level + 1) (slot kid) = Inr pos'"
    "it' = it\<lparr>path := path', pos := pos'\<rparr>"
    by (auto simp: update_kid_def ebind_def split: sum.splits)
  then show ?thesis by (simp add: store_length)
qed

lemma iterPrev_lengths:
  "iterPrev it level = Inr it' \<Longrightarrow>
     length (path it') = length (path it) \<and> length (pos it') = length (pos it)"
proof (induction it level arbitrary: it' rule: iterPrev.induct)
  case (1 iter level)
  from "1.prems" obtain p where p: "index (pos iter) level = Inr p"
    by (subst (asm) iterPrev.simps) (auto split: sum.splits)
  show ?case
  proof (cases "p > 0")
    case True
    with "1.prems" p have "update_kid (\<lambda>kid. nKeys kid - 1) (iter\<lparr>pos := (pos iter)[nat level := p - 1]\<rparr>) level = Inr it'"
      by (subst (asm) iterPrev.simps) simp
    from update_kid_lengths [OF this] show ?thesis by simp
  next
    case False
    show ?thesis
    proof (cases "level > 0")
      case True
      with "1.prems" p False obtain it1 where r: "iterPrev iter (level - 1) = Inr it1"
        and u: "update_kid (\<lambda>kid. nKeys kid - 1) it1 level = Inr it'"
        by (subst (asm) iterPrev.simps) (auto split: sum.splits)
      from "1.IH" [OF p False True r] update_kid_lengths [OF u] show ?thesis by simp
    next
      case nl: False
      with "1.prems" p False have "it' = iter" by (subst (asm) iterPrev.simps) simp
      then show ?thesis by simp
    qed
  qed
qed


lemma iterNext_lengths:
  "iterNext it level = Inr it' \<Longrightarrow>
     length (path it') = length (path it) \<and> length (pos it') = length (pos it)"
proof (induction it level arbitrary: it' rule: iterNext.induct)
  case (1 iter level)
  from "1.prems" obtain node where n: "index (path iter) level = Inr node"
    by (subst (asm) iterNext.simps) (auto split: sum.splits)
  from "1.prems" n obtain p where p: "index (pos iter) level = Inr p"
    by (subst (asm) iterNext.simps) (auto split: sum.splits)
  show ?case
  proof (cases "p < nKeys node - 1")
    case True
    with "1.prems" n p have "update_kid (\<lambda>kid. 0) (iter\<lparr>pos := (pos iter)[nat level := p + 1]\<rparr>) level = Inr it'"
      by (subst (asm) iterNext.simps) simp
    from update_kid_lengths [OF this] show ?thesis by simp
  next
    case False
    show ?thesis
    proof (cases "level < int (length (path iter)) - 1")
      case True
      with "1.prems" n p False obtain it1 where r: "iterNext iter (level + 1) = Inr it1"
        and u: "update_kid (\<lambda>kid. 0) it1 level = Inr it'"
        by (subst (asm) iterNext.simps) (auto split: sum.splits)
      from "1.IH" [OF n p False True r] update_kid_lengths [OF u] show ?thesis by simp
    next
      case nl: False
      with "1.prems" n p False have "it' = iter" by (subst (asm) iterNext.simps) simp
      then show ?thesis by simp
    qed
  qed
qed

lemma SeekLE_loop_lengths:
  assumes "SeekLE_loop search t key ptr it = Some r"
  shows "length (path it) = length (pos it) \<longrightarrow>
           (\<forall>it'. r = Inr it' \<longrightarrow> length (path it') = length (pos it'))"
proof (rule SeekLE_loop.raw_induct [where P = "\<lambda>search t key ptr it r.
         length (path it) = length (pos it) \<longrightarrow>
           (\<forall>it'. r = Inr it' \<longrightarrow> length (path it') = length (pos it'))", OF _ assms])
  fix loop :: "(BNode \<Rightarrow> bytes \<Rightarrow> 16 word) \<Rightarrow> BTree \<Rightarrow> bytes \<Rightarrow> 64 word \<Rightarrow> BIter \<Rightarrow> (error + BIter) option"
    and search t key ptr it r
  assume IH: "\<And>search t key ptr it r. loop search t key ptr it = Some r \<Longrightarrow>
         length (path it) = length (pos it) \<longrightarrow>
           (\<forall>it'. r = Inr it' \<longrightarrow> length (path it') = length (pos it'))"
  assume body: "(if ptr = 0 then Some (Inr it)
      else case tree_get t ptr of
        Inl e \<Rightarrow> Some (Inl e)
      | Inr node \<Rightarrow>
          let idx = search node key;
              iter' = it\<lparr>path := path it @ [node], pos := pos it @ [idx]\<rparr>
          in if bNodeType node = BNODE_INODE then
               (case getPtr node idx of
                  Inl e \<Rightarrow> Some (Inl e)
                | Inr ptr' \<Rightarrow> loop search t key ptr' iter')
             else loop search t key 0 iter') = Some r"
  show "length (path it) = length (pos it) \<longrightarrow>
           (\<forall>it'. r = Inr it' \<longrightarrow> length (path it') = length (pos it'))"
  proof (cases "ptr = 0")
    case True
    with body show ?thesis by auto
  next
    case False
    show ?thesis
    proof (cases "tree_get t ptr")
      case (Inl e)
      with body False show ?thesis by auto
    next
      case (Inr node)
      let ?it = "it\<lparr>path := path it @ [node], pos := pos it @ [search node key]\<rparr>"
      from body False Inr have "(\<exists>q. loop search t key q ?it = Some r) \<or> (\<exists>e. r = Inl e)"
        by (auto simp: Let_def split: if_splits sum.splits)
      then show ?thesis
      proof
        assume "\<exists>q. loop search t key q ?it = Some r"
        then obtain q where "loop search t key q ?it = Some r" by blast
        from IH [OF this] show ?thesis by simp
      next
        assume "\<exists>e. r = Inl e"
        then show ?thesis by auto
      qed
    qed
  qed
qed

lemma Seek_lengths:
  assumes "Seek search t key cmp = Some (Inr it)"
  shows "length (path it) = length (pos it)"
proof -
  from assms obtain r where r: "SeekLE search t key = Some r"
    by (cases "SeekLE search t key") (simp_all add: Seek_def)
  with assms obtain it0 where it0: "r = Inr it0"
    by (cases r) (simp_all add: Seek_def)
  from r it0 have l0: "length (path it0) = length (pos it0)"
    using SeekLE_loop_lengths [of search t key "root t" "\<lparr>tree = t, path = [], pos = []\<rparr>" r]
    by (simp add: SeekLE_def)
  from assms r it0 have "it = it0 \<or> BIter_Next it0 = Inr it \<or> BIter_Prev it0 = Inr it"
    by (auto simp: Seek_def ebind_def split: if_splits sum.splits prod.splits)
  then show ?thesis using l0 iterNext_lengths [of it0 0 it]
      iterPrev_lengths [of it0 "int (length (path it0)) - 1" it]
    by (auto simp: BIter_Next_def BIter_Prev_def)
qed

lemma cmpOK_returns: "is_cmp c \<Longrightarrow> \<exists>b. cmpOK key c ref = Inr b"
  by (auto simp: is_cmp_def cmpOK_def Let_def cmp_defs)

lemma BIter_Valid_returns:
  assumes "length (path it) = length (pos it)"
  shows "\<exists>b. BIter_Valid it = Inr b"
proof (cases "path it = []")
  case True
  then show ?thesis by (auto simp: BIter_Valid_def)
next
  case False
  with assms have "pos it \<noteq> []" by auto
  with False have "\<exists>n. index (path it) (int (length (path it)) - 1) = Inr n"
    "\<exists>p. index (pos it) (int (length (pos it)) - 1) = Inr p"
    by (simp_all add: index_def)
  then obtain n p where "index (path it) (int (length (path it)) - 1) = Inr n"
    "index (pos it) (int (length (pos it)) - 1) = Inr p" by blast
  then show ?thesis using False by (auto simp: BIter_Valid_def)
qed

lemma Scanner_Valid_returns:
  assumes "iter sc = Some it" "length (path it) = length (pos it)" "is_cmp (Cmp1 sc)" "is_cmp (Cmp2 sc)"
  shows "\<exists>b. Scanner_Valid sc = Inr b"
proof -
  from BIter_Valid_returns [OF assms(2)] obtain v where v: "BIter_Valid it = Inr v" by blast
  show ?thesis
  proof (cases v)
    case False
    with v assms(1) show ?thesis by (auto simp: Scanner_Valid_def)
  next
    case True
    with v have "BIter_Valid it = Inr True" by simp
    from Valid_Deref [OF this] obtain key val where d: "BIter_Deref it = Inr (key, val)" by blast
    from cmpOK_returns [OF assms(3)] obtain b1 where b1: "cmpOK key (Cmp1 sc) (keyStart sc) = Inr b1" by blast
    from cmpOK_returns [OF assms(4)] obtain b2 where b2: "cmpOK key (Cmp2 sc) (keyEnd sc) = Inr b2" by blast
    from v True d b1 b2 assms(1) show ?thesis by (simp add: Scanner_Valid_def)
  qed
qed

lemma dbScan_success:
  assumes "dbScan E d td req t = Some (None, sc)"
  shows "\<exists>it. iter sc = Some it \<and> Seek (nodeLookupLE E) t (keyStart sc) (Cmp1 req) = Some (Inr it)
           \<and> Cmp1 sc = Cmp1 req \<and> Cmp2 sc = Cmp2 req"
  using assms
  by (auto simp: dbScan_def Let_def split: if_splits sum.splits option.splits prod.splits)


lemma Scanner_Valid_True_iff:
  "Scanner_Valid sc = Inr True \<longleftrightarrow>
     (\<exists>it key val. iter sc = Some it \<and> BIter_Valid it = Inr True \<and> BIter_Deref it = Inr (key, val)
        \<and> satisfies key (Cmp1 sc) (keyStart sc) \<and> satisfies key (Cmp2 sc) (keyEnd sc))"
proof (cases "iter sc")
  case None
  then show ?thesis by (simp add: Scanner_Valid_def)
next
  case (Some it)
  show ?thesis
  proof (cases "BIter_Valid it")
    case (Inl e)
    then show ?thesis using Some by (simp add: Scanner_Valid_def)
  next
    case (Inr v)
    show ?thesis
    proof (cases v)
      case False
      then show ?thesis using Some Inr by (simp add: Scanner_Valid_def)
    next
      case True
      with Inr have v: "BIter_Valid it = Inr True" by simp
      then obtain key val where d: "BIter_Deref it = Inr (key, val)" using Valid_Deref by blast
      have "Scanner_Valid sc = Inr True
              \<longleftrightarrow> satisfies key (Cmp1 sc) (keyStart sc) \<and> satisfies key (Cmp2 sc) (keyEnd sc)"
        using Some v d by (simp add: Scanner_Valid_def both_cmpOK)
      then show ?thesis using Some v d by simp
    qed
  qed
qed

text \<open>
  C4. \<open>Scanner.Valid\<close> returns true exactly when the scanner holds a cursor, the cursor's
  position is valid, and the key there satisfies the start comparison (\<open>Cmp1\<close> against
  \<open>keyStart\<close>) and the end comparison (\<open>Cmp2\<close> against \<open>keyEnd\<close>). This holds of every
  scanner; and on a scanner that a successful setup has returned, with the two operators
  among the four constants, \<open>Scanner.Valid\<close> does return: true or false, never a panic.
\<close>

theorem Scanner_Valid_iff:
  "(Scanner_Valid sc = Inr True \<longleftrightarrow>
     (\<exists>it key val. iter sc = Some it \<and> BIter_Valid it = Inr True \<and> BIter_Deref it = Inr (key, val)
        \<and> satisfies key (Cmp1 sc) (keyStart sc) \<and> satisfies key (Cmp2 sc) (keyEnd sc)))
   \<and> (dbScan E d td req t = Some (None, sc) \<and> is_cmp (Cmp1 req) \<and> is_cmp (Cmp2 req)
        \<longrightarrow> (\<exists>b. Scanner_Valid sc = Inr b))"
proof (intro conjI impI)
  show "Scanner_Valid sc = Inr True \<longleftrightarrow>
     (\<exists>it key val. iter sc = Some it \<and> BIter_Valid it = Inr True \<and> BIter_Deref it = Inr (key, val)
        \<and> satisfies key (Cmp1 sc) (keyStart sc) \<and> satisfies key (Cmp2 sc) (keyEnd sc))"
    by (rule Scanner_Valid_True_iff)
next
  assume a: "dbScan E d td req t = Some (None, sc) \<and> is_cmp (Cmp1 req) \<and> is_cmp (Cmp2 req)"
  then have ds: "dbScan E d td req t = Some (None, sc)" by simp
  from dbScan_success [OF ds] obtain it where it: "iter sc = Some it"
    and s: "Seek (nodeLookupLE E) t (keyStart sc) (Cmp1 req) = Some (Inr it)"
    and c: "Cmp1 sc = Cmp1 req" "Cmp2 sc = Cmp2 req"
    by blast
  from a c have "is_cmp (Cmp1 sc)" "is_cmp (Cmp2 sc)" by simp_all
  with it Seek_lengths [OF s] show "\<exists>b. Scanner_Valid sc = Inr b"
    by (rule Scanner_Valid_returns)
qed

subsection \<open>Runs on the two-level tree and on the single leaf\<close>

lemma SeekLE_tree2_2:
  "SeekLE lookupLE tree2 (pkey 2) = Some (Inr \<lparr>tree = tree2, path = [inode, leaf123], pos = [0, 1]\<rparr>)"
  by (simp add: SeekLE_def SeekLE_loop.simps lookupLE_def node_defs ex_defs)

lemma Seek_tree2_GE_2:
  "Seek lookupLE tree2 (pkey 2) CMP_GE = Some (Inr \<lparr>tree = tree2, path = [inode, leaf123], pos = [0, 1]\<rparr>)"
  unfolding Seek_def SeekLE_tree2_2
  by (simp add: BIter_Valid_def BIter_Deref_def cmpOK_def cmp_defs node_defs ex_defs)

lemma SeekLE_tree2_3:
  "SeekLE lookupLE tree2 (pkey 3) = Some (Inr \<lparr>tree = tree2, path = [inode, leaf123], pos = [0, 2]\<rparr>)"
  by (simp add: SeekLE_def SeekLE_loop.simps lookupLE_def node_defs ex_defs)

lemma Seek_tree2_LE_3:
  "Seek lookupLE tree2 (pkey 3) CMP_LE = Some (Inr \<lparr>tree = tree2, path = [inode, leaf123], pos = [0, 2]\<rparr>)"
  unfolding Seek_def SeekLE_tree2_3 by simp

lemma SeekLE_tree1_2:
  "SeekLE lookupLE tree1 (pkey 2) = Some (Inr \<lparr>tree = tree1, path = [leaf123], pos = [1]\<rparr>)"
  by (simp add: SeekLE_def SeekLE_loop.simps lookupLE_def node_defs ex_defs)

lemma Seek_tree1_GE_2:
  "Seek lookupLE tree1 (pkey 2) CMP_GE = Some (Inr \<lparr>tree = tree1, path = [leaf123], pos = [1]\<rparr>)"
  unfolding Seek_def SeekLE_tree1_2
  by (simp add: BIter_Valid_def BIter_Deref_def cmpOK_def cmp_defs node_defs ex_defs)

text \<open>Setup over the primary key of \<open>T\<close>, with both bounds on column \<open>a\<close>.\<close>

lemma dbScan_on_a:
  assumes "(c1 > 0 \<and> c2 < 0) \<or> (c2 > 0 \<and> c1 < 0)"
    and "Seek lookupLE t (pkey k1) c1 = Some (Inr it)"
  shows "dbScan ex_ext () ex_tdef (request c1 (on_a k1) c2 (on_a k2)) t
           = Some (None, scanning c1 k1 c2 k2 it)"
proof -
  have "encodeKeyPartial ex_ext [] [0, 0, 0, 1] [bval k] ex_tdef [''a''] c = Inr (pkey k)" for k c
    by (simp add: ex_ext_def ex_encode_def bval_def pkey_def)
  moreover have "findIndex ex_ext ex_tdef [''a''] = Inr (- 1)"
    by (simp add: ex_ext_def findIndex_spec_def ex_tdef_def)
  moreover have "nodeLookupLE ex_ext = lookupLE" by (simp add: ex_ext_def)
  moreover have "td_Cols ex_tdef = [''a'', ''b'']" "td_PKeys ex_tdef = 1"
    "td_Prefix ex_tdef = [0, 0, 0, 1]"
    by (simp_all add: ex_tdef_def)
  ultimately show ?thesis using assms
    by (simp add: dbScan_def request_def on_a_def scanning_def slice_to_def)
qed

lemma Scan_T: "Scan ex_ext () ''T'' req t = dbScan ex_ext () ex_tdef req t"
  by (simp add: Scan_def ex_ext_def)

lemma Scan_asc_tree2:
  "Scan ex_ext () ''T'' (request CMP_GE (on_a 2) CMP_LE (on_a 3)) tree2
     = Some (None, scanning CMP_GE 2 CMP_LE 3 \<lparr>tree = tree2, path = [inode, leaf123], pos = [0, 1]\<rparr>)"
  unfolding Scan_T by (rule dbScan_on_a [OF _ Seek_tree2_GE_2]) (simp add: cmp_defs)

lemma Scan_desc_tree2:
  "Scan ex_ext () ''T'' (request CMP_LE (on_a 3) CMP_GE (on_a 2)) tree2
     = Some (None, scanning CMP_LE 3 CMP_GE 2 \<lparr>tree = tree2, path = [inode, leaf123], pos = [0, 2]\<rparr>)"
  unfolding Scan_T by (rule dbScan_on_a [OF _ Seek_tree2_LE_3]) (simp add: cmp_defs)

lemma Scan_asc_tree1:
  "Scan ex_ext () ''T'' (request CMP_GE (on_a 2) CMP_LE (on_a 3)) tree1
     = Some (None, scanning CMP_GE 2 CMP_LE 3 \<lparr>tree = tree1, path = [leaf123], pos = [1]\<rparr>)"
  unfolding Scan_T by (rule dbScan_on_a [OF _ Seek_tree1_GE_2]) (simp add: cmp_defs)

lemma asc_tree2_first:
  "Scanner_Valid (scanning CMP_GE 2 CMP_LE 3 \<lparr>tree = tree2, path = [inode, leaf123], pos = [0, 1]\<rparr>) = Inr True"
  "cursor_key (scanning CMP_GE 2 CMP_LE 3 \<lparr>tree = tree2, path = [inode, leaf123], pos = [0, 1]\<rparr>) = Inr (pkey 2)"
  "Scanner_Next (scanning CMP_GE 2 CMP_LE 3 \<lparr>tree = tree2, path = [inode, leaf123], pos = [0, 1]\<rparr>)
     = Inr (scanning CMP_GE 2 CMP_LE 3 \<lparr>tree = tree2, path = [inode, leaf45], pos = [1, 0]\<rparr>)"
  by (simp_all add: scanner_defs cursor_defs cmp_defs node_defs ex_defs)

lemma asc_tree2_second:
  "Scanner_Valid (scanning CMP_GE 2 CMP_LE 3 \<lparr>tree = tree2, path = [inode, leaf45], pos = [1, 0]\<rparr>) = Inr False"
  by (simp add: scanner_defs cursor_defs cmp_defs node_defs ex_defs)

lemma asc_tree2_keys:
  "scan_keys 2 (scanning CMP_GE 2 CMP_LE 3 \<lparr>tree = tree2, path = [inode, leaf123], pos = [0, 1]\<rparr>)
     = Some (Inr [pkey 2])"
  by (simp add: numeral_2_eq_2 asc_tree2_first asc_tree2_second)

lemma desc_tree2_first:
  "Scanner_Valid (scanning CMP_LE 3 CMP_GE 2 \<lparr>tree = tree2, path = [inode, leaf123], pos = [0, 2]\<rparr>) = Inr True"
  "cursor_key (scanning CMP_LE 3 CMP_GE 2 \<lparr>tree = tree2, path = [inode, leaf123], pos = [0, 2]\<rparr>) = Inr (pkey 3)"
  "Scanner_Next (scanning CMP_LE 3 CMP_GE 2 \<lparr>tree = tree2, path = [inode, leaf123], pos = [0, 2]\<rparr>)
     = Inr (scanning CMP_LE 3 CMP_GE 2 \<lparr>tree = tree2, path = [inode, leaf123], pos = [0, 1]\<rparr>)"
  by (simp_all add: scanner_defs cursor_defs cmp_defs node_defs ex_defs)

lemma desc_tree2_second:
  "Scanner_Valid (scanning CMP_LE 3 CMP_GE 2 \<lparr>tree = tree2, path = [inode, leaf123], pos = [0, 1]\<rparr>) = Inr True"
  "cursor_key (scanning CMP_LE 3 CMP_GE 2 \<lparr>tree = tree2, path = [inode, leaf123], pos = [0, 1]\<rparr>) = Inr (pkey 2)"
  "Scanner_Next (scanning CMP_LE 3 CMP_GE 2 \<lparr>tree = tree2, path = [inode, leaf123], pos = [0, 1]\<rparr>)
     = Inr (scanning CMP_LE 3 CMP_GE 2 \<lparr>tree = tree2, path = [inode, leaf123], pos = [0, 0]\<rparr>)"
  by (simp_all add: scanner_defs cursor_defs cmp_defs node_defs ex_defs)

lemma desc_tree2_third:
  "Scanner_Valid (scanning CMP_LE 3 CMP_GE 2 \<lparr>tree = tree2, path = [inode, leaf123], pos = [0, 0]\<rparr>) = Inr False"
  by (simp add: scanner_defs cursor_defs cmp_defs node_defs ex_defs)

lemma desc_tree2_keys:
  "scan_keys 3 (scanning CMP_LE 3 CMP_GE 2 \<lparr>tree = tree2, path = [inode, leaf123], pos = [0, 2]\<rparr>)
     = Some (Inr [pkey 3, pkey 2])"
  by (simp add: numeral_3_eq_3 desc_tree2_first desc_tree2_second desc_tree2_third)

lemma asc_tree1_first:
  "Scanner_Valid (scanning CMP_GE 2 CMP_LE 3 \<lparr>tree = tree1, path = [leaf123], pos = [1]\<rparr>) = Inr True"
  "cursor_key (scanning CMP_GE 2 CMP_LE 3 \<lparr>tree = tree1, path = [leaf123], pos = [1]\<rparr>) = Inr (pkey 2)"
  "Scanner_Next (scanning CMP_GE 2 CMP_LE 3 \<lparr>tree = tree1, path = [leaf123], pos = [1]\<rparr>)
     = Inr (scanning CMP_GE 2 CMP_LE 3 \<lparr>tree = tree1, path = [leaf123], pos = [2]\<rparr>)"
  by (simp_all add: scanner_defs cursor_defs cmp_defs node_defs ex_defs)

lemma asc_tree1_last:
  "Scanner_Valid (scanning CMP_GE 2 CMP_LE 3 \<lparr>tree = tree1, path = [leaf123], pos = [2]\<rparr>) = Inr True"
  "cursor_key (scanning CMP_GE 2 CMP_LE 3 \<lparr>tree = tree1, path = [leaf123], pos = [2]\<rparr>) = Inr (pkey 3)"
  "Scanner_Next (scanning CMP_GE 2 CMP_LE 3 \<lparr>tree = tree1, path = [leaf123], pos = [2]\<rparr>)
     = Inr (scanning CMP_GE 2 CMP_LE 3 \<lparr>tree = tree1, path = [leaf123], pos = [2]\<rparr>)"
  by (simp_all add: scanner_defs cursor_defs cmp_defs node_defs ex_defs)

text \<open>A scanner that is valid and that \<open>Next\<close> does not change keeps the loop running for
  ever: no amount of fuel ends the scan.\<close>

lemma stuck_forever:
  assumes "Scanner_Valid sc = Inr True" "cursor_key sc = Inr k" "Scanner_Next sc = Inr sc"
  shows "scan_keys n sc = None"
  by (induction n) (simp_all add: assms)

lemma asc_tree1_never_ends:
  "scan_keys n (scanning CMP_GE 2 CMP_LE 3 \<lparr>tree = tree1, path = [leaf123], pos = [1]\<rparr>) = None"
proof (cases n)
  case 0
  then show ?thesis by simp
next
  case (Suc m)
  have "scan_keys m (scanning CMP_GE 2 CMP_LE 3 \<lparr>tree = tree1, path = [leaf123], pos = [2]\<rparr>) = None"
    by (rule stuck_forever [OF asc_tree1_last])
  then show ?thesis using Suc by (simp add: asc_tree1_first)
qed

theorem Scanner_Valid_iff_witness:
  "dbScan ex_ext () ex_tdef (request CMP_GE (on_a 2) CMP_LE (on_a 3)) tree2
     = Some (None, scanning CMP_GE 2 CMP_LE 3 \<lparr>tree = tree2, path = [inode, leaf123], pos = [0, 1]\<rparr>)
   \<and> is_cmp (Cmp1 (request CMP_GE (on_a 2) CMP_LE (on_a 3)))
   \<and> is_cmp (Cmp2 (request CMP_GE (on_a 2) CMP_LE (on_a 3)))
   \<and> (\<exists>b. Scanner_Valid (scanning CMP_GE 2 CMP_LE 3 \<lparr>tree = tree2, path = [inode, leaf123], pos = [0, 1]\<rparr>) = Inr b)
   \<and> Scanner_Valid (scanning CMP_GE 2 CMP_LE 3 \<lparr>tree = tree2, path = [inode, leaf123], pos = [0, 1]\<rparr>) = Inr True
   \<and> (\<exists>it key val.
         iter (scanning CMP_GE 2 CMP_LE 3 \<lparr>tree = tree2, path = [inode, leaf123], pos = [0, 1]\<rparr>) = Some it
       \<and> BIter_Valid it = Inr True \<and> BIter_Deref it = Inr (key, val)
       \<and> satisfies key CMP_GE (pkey 2) \<and> satisfies key CMP_LE (pkey 3))"
proof -
  let ?sc = "scanning CMP_GE 2 CMP_LE 3 \<lparr>tree = tree2, path = [inode, leaf123], pos = [0, 1]\<rparr>"
  have v: "Scanner_Valid ?sc = Inr True" by (rule asc_tree2_first(1))
  have f: "Cmp1 ?sc = CMP_GE" "keyStart ?sc = pkey 2" "Cmp2 ?sc = CMP_LE" "keyEnd ?sc = pkey 3"
    by (simp_all add: scanning_def)
  have d: "dbScan ex_ext () ex_tdef (request CMP_GE (on_a 2) CMP_LE (on_a 3)) tree2 = Some (None, ?sc)"
    using Scan_asc_tree2 unfolding Scan_T .
  have c: "is_cmp (Cmp1 (request CMP_GE (on_a 2) CMP_LE (on_a 3)))"
    "is_cmp (Cmp2 (request CMP_GE (on_a 2) CMP_LE (on_a 3)))"
    by (simp_all add: request_def is_cmp_def)
  from Scanner_Valid_iff [of ?sc ex_ext "()" ex_tdef "request CMP_GE (on_a 2) CMP_LE (on_a 3)" tree2] v d c
  show ?thesis unfolding f by blast
qed

subsection \<open>Scans in both directions\<close>

text \<open>
  C1. An ascending scan \<open>GE lo, LE hi\<close> should visit every key between the bounds. On the
  two-level tree with rows 1..5 the scan of \<open>[2, 3]\<close> ends after key 2: \<open>Next\<close> moves to
  the second leaf and key 3, a key of the tree within the bounds, is never visited. On the
  single leaf with rows 1..3 the same scan reaches key 3, the last of the tree, and stays
  there: \<open>Valid\<close> never turns false, whatever the fuel.
\<close>

theorem ascending_scan_misses_key:
  "Scan ex_ext () ''T'' (request CMP_GE (on_a 2) CMP_LE (on_a 3)) tree2
     = Some (None, scanning CMP_GE 2 CMP_LE 3 \<lparr>tree = tree2, path = [inode, leaf123], pos = [0, 1]\<rparr>)
   \<and> scan_keys 2 (scanning CMP_GE 2 CMP_LE 3 \<lparr>tree = tree2, path = [inode, leaf123], pos = [0, 1]\<rparr>)
     = Some (Inr [pkey 2])
   \<and> getKey leaf123 2 = Inr (pkey 3)
   \<and> satisfies (pkey 3) CMP_GE (pkey 2) \<and> satisfies (pkey 3) CMP_LE (pkey 3)
   \<and> Scan ex_ext () ''T'' (request CMP_GE (on_a 2) CMP_LE (on_a 3)) tree1
     = Some (None, scanning CMP_GE 2 CMP_LE 3 \<lparr>tree = tree1, path = [leaf123], pos = [1]\<rparr>)
   \<and> (\<forall>n. scan_keys n (scanning CMP_GE 2 CMP_LE 3 \<lparr>tree = tree1, path = [leaf123], pos = [1]\<rparr>) = None)"
proof -
  have "getKey leaf123 2 = Inr (pkey 3)" by (simp add: node_defs ex_defs)
  moreover have "satisfies (pkey 3) CMP_GE (pkey 2)" "satisfies (pkey 3) CMP_LE (pkey 3)"
    by (simp_all add: satisfies_def pkey_def cmp_defs)
  ultimately show ?thesis
    using Scan_asc_tree2 asc_tree2_keys Scan_asc_tree1 asc_tree1_never_ends by blast
qed

text \<open>
  C5. The descending scan should be the reverse of the ascending one. On the two-level tree
  the descending scan of \<open>[2, 3]\<close> visits 3 and 2, the ascending scan visits 2 alone.
\<close>

theorem descending_not_reverse_of_ascending:
  "Scan ex_ext () ''T'' (request CMP_LE (on_a 3) CMP_GE (on_a 2)) tree2
     = Some (None, scanning CMP_LE 3 CMP_GE 2 \<lparr>tree = tree2, path = [inode, leaf123], pos = [0, 2]\<rparr>)
   \<and> scan_keys 3 (scanning CMP_LE 3 CMP_GE 2 \<lparr>tree = tree2, path = [inode, leaf123], pos = [0, 2]\<rparr>)
     = Some (Inr [pkey 3, pkey 2])
   \<and> Scan ex_ext () ''T'' (request CMP_GE (on_a 2) CMP_LE (on_a 3)) tree2
     = Some (None, scanning CMP_GE 2 CMP_LE 3 \<lparr>tree = tree2, path = [inode, leaf123], pos = [0, 1]\<rparr>)
   \<and> scan_keys 3 (scanning CMP_GE 2 CMP_LE 3 \<lparr>tree = tree2, path = [inode, leaf123], pos = [0, 1]\<rparr>)
     = Some (Inr [pkey 2])
   \<and> [pkey 3, pkey 2] \<noteq> rev [pkey 2]"
proof -
  have "scan_keys 3 (scanning CMP_GE 2 CMP_LE 3 \<lparr>tree = tree2, path = [inode, leaf123], pos = [0, 1]\<rparr>)
     = Some (Inr [pkey 2])"
    by (simp add: numeral_3_eq_3 asc_tree2_first asc_tree2_second)
  then show ?thesis using Scan_desc_tree2 desc_tree2_keys Scan_asc_tree2 by simp
qed

subsection \<open>Stepping the cursor\<close>

text \<open>
  C2. \<open>Next\<close> should move to the in-order successor. On the two-level tree, from the first
  key of the first leaf (key 1, which has two more keys behind it in its leaf), \<open>Next\<close>
  advances the root's slot and lands on the first key of the second leaf, key 4: keys 2 and
  3 are skipped. \<open>Prev\<close> from there does go to the predecessor, key 3.
\<close>

theorem Next_skips_rest_of_leaf:
  "BIter_Valid \<lparr>tree = tree2, path = [inode, leaf123], pos = [0, 0]\<rparr> = Inr True
   \<and> BIter_Deref \<lparr>tree = tree2, path = [inode, leaf123], pos = [0, 0]\<rparr> = Inr (pkey 1, [5])
   \<and> BIter_Next \<lparr>tree = tree2, path = [inode, leaf123], pos = [0, 0]\<rparr>
       = Inr \<lparr>tree = tree2, path = [inode, leaf45], pos = [1, 0]\<rparr>
   \<and> BIter_Deref \<lparr>tree = tree2, path = [inode, leaf45], pos = [1, 0]\<rparr> = Inr (pkey 4, [4])
   \<and> BIter_Prev \<lparr>tree = tree2, path = [inode, leaf45], pos = [1, 0]\<rparr>
       = Inr \<lparr>tree = tree2, path = [inode, leaf123], pos = [0, 2]\<rparr>
   \<and> BIter_Deref \<lparr>tree = tree2, path = [inode, leaf123], pos = [0, 2]\<rparr> = Inr (pkey 3, [1])"
  by (simp add: cursor_defs node_defs ex_defs)

text \<open>
  C7. The spec has a step past the last or the first key leave the cursor invalid. On the
  single leaf, \<open>Prev\<close> at the first key and \<open>Next\<close> at the last key return the cursor as
  it was, and it is still valid. On the two-level tree, \<open>Prev\<close> at the first key changes
  nothing, and \<open>Next\<close> at the last key moves back to the first key of the last leaf, a
  valid position.
\<close>

theorem step_at_end_stays_valid:
  "BIter_Deref \<lparr>tree = tree1, path = [leaf123], pos = [2]\<rparr> = Inr (pkey 3, [1])
   \<and> BIter_Next \<lparr>tree = tree1, path = [leaf123], pos = [2]\<rparr>
       = Inr \<lparr>tree = tree1, path = [leaf123], pos = [2]\<rparr>
   \<and> BIter_Valid \<lparr>tree = tree1, path = [leaf123], pos = [2]\<rparr> = Inr True
   \<and> BIter_Prev \<lparr>tree = tree1, path = [leaf123], pos = [0]\<rparr>
       = Inr \<lparr>tree = tree1, path = [leaf123], pos = [0]\<rparr>
   \<and> BIter_Valid \<lparr>tree = tree1, path = [leaf123], pos = [0]\<rparr> = Inr True
   \<and> BIter_Next \<lparr>tree = tree2, path = [inode, leaf45], pos = [1, 1]\<rparr>
       = Inr \<lparr>tree = tree2, path = [inode, leaf45], pos = [1, 0]\<rparr>
   \<and> BIter_Valid \<lparr>tree = tree2, path = [inode, leaf45], pos = [1, 0]\<rparr> = Inr True
   \<and> BIter_Prev \<lparr>tree = tree2, path = [inode, leaf123], pos = [0, 0]\<rparr>
       = Inr \<lparr>tree = tree2, path = [inode, leaf123], pos = [0, 0]\<rparr>
   \<and> BIter_Valid \<lparr>tree = tree2, path = [inode, leaf123], pos = [0, 0]\<rparr> = Inr True"
  by (simp add: cursor_defs node_defs ex_defs)

text \<open>
  C7, as the code has it for \<open>Prev\<close>. At level 0 with slot 0 there is no level to carry
  into and \<open>iterPrev\<close> returns without moving. So for a cursor at the first key of a tree
  of one or two levels (every slot 0), \<open>Prev\<close> returns the cursor as it was: it is as valid
  afterwards as it was before.
\<close>

theorem Prev_at_first_key_returns_cursor:
  "(index (pos it) 0 = Inr 0 \<longrightarrow> iterPrev it 0 = Inr it)
   \<and> (path it = [n] \<and> pos it = [0] \<longrightarrow> BIter_Prev it = Inr it)
   \<and> (path it = [r, l] \<and> pos it = [0, 0] \<longrightarrow> BIter_Prev it = Inr it)"
proof (intro conjI impI)
  assume "index (pos it) 0 = Inr 0"
  then show "iterPrev it 0 = Inr it" by (subst iterPrev.simps) simp
next
  assume "path it = [n] \<and> pos it = [0]"
  then have "index (pos it) 0 = Inr 0" "int (length (path it)) - 1 = 0"
    by (simp_all add: index_def)
  then show "BIter_Prev it = Inr it"
    unfolding BIter_Prev_def by (subst iterPrev.simps) simp
next
  assume a: "path it = [r, l] \<and> pos it = [0, 0]"
  then have p: "index (pos it) 0 = Inr 0" "index (pos it) 1 = Inr 0"
    and n: "int (length (path it)) - 1 = 1"
    by (simp_all add: index_def)
  have root: "iterPrev it 0 = Inr it" using p(1) by (subst iterPrev.simps) simp
  have "iterPrev it 1 = update_kid (\<lambda>kid. nKeys kid - 1) it 1"
    using p(2) root by (subst iterPrev.simps) simp
  also have "\<dots> = Inr it" using a by (simp add: update_kid_def)
  finally show "BIter_Prev it = Inr it" unfolding BIter_Prev_def n .
qed

theorem Prev_at_first_key_returns_cursor_witness:
  "index (pos \<lparr>tree = tree2, path = [inode, leaf123], pos = [0, 0]\<rparr>) 0 = Inr 0
   \<and> iterPrev \<lparr>tree = tree2, path = [inode, leaf123], pos = [0, 0]\<rparr> 0
       = Inr \<lparr>tree = tree2, path = [inode, leaf123], pos = [0, 0]\<rparr>
   \<and> BIter_Prev \<lparr>tree = tree1, path = [leaf123], pos = [0]\<rparr>
       = Inr \<lparr>tree = tree1, path = [leaf123], pos = [0]\<rparr>
   \<and> BIter_Prev \<lparr>tree = tree2, path = [inode, leaf123], pos = [0, 0]\<rparr>
       = Inr \<lparr>tree = tree2, path = [inode, leaf123], pos = [0, 0]\<rparr>
   \<and> BIter_Valid \<lparr>tree = tree2, path = [inode, leaf123], pos = [0, 0]\<rparr> = Inr True"
proof -
  let ?c1 = "\<lparr>tree = tree1, path = [leaf123], pos = [0]\<rparr>"
  let ?c2 = "\<lparr>tree = tree2, path = [inode, leaf123], pos = [0, 0]\<rparr>"
  have i: "index (pos ?c2) 0 = Inr 0" by (simp add: index_def)
  have s1: "path ?c1 = [leaf123] \<and> pos ?c1 = [0]" by simp
  have s2: "path ?c2 = [inode, leaf123] \<and> pos ?c2 = [0, 0]" by simp
  have v: "BIter_Valid ?c2 = Inr True" by (simp add: BIter_Valid_def node_defs ex_defs)
  from Prev_at_first_key_returns_cursor [of ?c2 leaf123 inode leaf123] i s2
  have a: "iterPrev ?c2 0 = Inr ?c2" "BIter_Prev ?c2 = Inr ?c2" by blast+
  from Prev_at_first_key_returns_cursor [of ?c1 leaf123 inode leaf123] s1
  have b: "BIter_Prev ?c1 = Inr ?c1" by blast
  from i a b v show ?thesis by blast
qed

subsection \<open>Setup\<close>

lemma dbScan_bad_range:
  "\<not> ((Cmp1 req > 0 \<and> Cmp2 req < 0) \<or> (Cmp2 req > 0 \<and> Cmp1 req < 0))
     \<Longrightarrow> dbScan E d td req t = Some (Some (Error ''bad range''), req)"
  by (simp add: dbScan_def)

lemma dbScan_findIndex_error:
  "(Cmp1 req > 0 \<and> Cmp2 req < 0) \<or> (Cmp2 req > 0 \<and> Cmp1 req < 0)
     \<Longrightarrow> findIndex E td (Cols (Key1 req)) = Inl err
     \<Longrightarrow> dbScan E d td req t = Some (Some err, req)"
  by (simp add: dbScan_def)

lemma Scan_no_table:
  "GetTableDef E d table t = None
     \<Longrightarrow> Scan E d table req t = Some (Some (Error (''table not found: '' @ table)), req)"
  by (simp add: Scan_def)

text \<open>
  C3. A setup that fails hands the request back as it received it, so with no cursor and no
  field written: \<open>Scan\<close> on an absent table returns the table-not-found error; \<open>dbScan\<close>
  with two operators of the same direction returns the bad-range error; and \<open>dbScan\<close>
  on columns that \<open>findIndex\<close> rejects returns an error too, which is the error of
  \<open>findIndex\<close> whenever the operators pass the range check that comes first.
\<close>

theorem setup_failure_leaves_request:
  "(GetTableDef E d table t = None \<longrightarrow>
      Scan E d table req t = Some (Some (Error (''table not found: '' @ table)), req))
   \<and> (findIndex E td (Cols (Key1 req)) = Inl err \<longrightarrow>
      (\<exists>e. dbScan E d td req t = Some (Some e, req)
         \<and> ((Cmp1 req > 0 \<and> Cmp2 req < 0) \<or> (Cmp2 req > 0 \<and> Cmp1 req < 0) \<longrightarrow> e = err)))
   \<and> ((Cmp1 req > 0 \<and> Cmp2 req > 0) \<or> (Cmp1 req < 0 \<and> Cmp2 req < 0) \<longrightarrow>
      dbScan E d td req t = Some (Some (Error ''bad range''), req))"
proof (intro conjI impI)
  assume "GetTableDef E d table t = None"
  then show "Scan E d table req t = Some (Some (Error (''table not found: '' @ table)), req)"
    by (rule Scan_no_table)
next
  assume fi: "findIndex E td (Cols (Key1 req)) = Inl err"
  show "\<exists>e. dbScan E d td req t = Some (Some e, req)
         \<and> ((Cmp1 req > 0 \<and> Cmp2 req < 0) \<or> (Cmp2 req > 0 \<and> Cmp1 req < 0) \<longrightarrow> e = err)"
  proof (cases "(Cmp1 req > 0 \<and> Cmp2 req < 0) \<or> (Cmp2 req > 0 \<and> Cmp1 req < 0)")
    case True
    then show ?thesis using dbScan_findIndex_error [OF True fi] by simp
  next
    case False
    have "dbScan E d td req t = Some (Some (Error ''bad range''), req)"
      by (rule dbScan_bad_range [OF False])
    with False show ?thesis by blast
  qed
next
  assume "(Cmp1 req > 0 \<and> Cmp2 req > 0) \<or> (Cmp1 req < 0 \<and> Cmp2 req < 0)"
  then have "\<not> ((Cmp1 req > 0 \<and> Cmp2 req < 0) \<or> (Cmp2 req > 0 \<and> Cmp1 req < 0))" by auto
  then show "dbScan E d td req t = Some (Some (Error ''bad range''), req)"
    by (rule dbScan_bad_range)
qed

theorem setup_failure_leaves_request_witness:
  "GetTableDef ex_ext () ''U'' tree1 = None
   \<and> Scan ex_ext () ''U'' (request CMP_GE (on_a 2) CMP_LE (on_a 3)) tree1
       = Some (Some (Error ''table not found: U''), request CMP_GE (on_a 2) CMP_LE (on_a 3))
   \<and> findIndex ex_ext ex_tdef (Cols (Key1 (request CMP_GE \<lparr>Cols = [''c''], Vals = [bval 2]\<rparr> CMP_LE (on_a 3))))
       = Inl (Error ''no index found'')
   \<and> dbScan ex_ext () ex_tdef (request CMP_GE \<lparr>Cols = [''c''], Vals = [bval 2]\<rparr> CMP_LE (on_a 3)) tree1
       = Some (Some (Error ''no index found''), request CMP_GE \<lparr>Cols = [''c''], Vals = [bval 2]\<rparr> CMP_LE (on_a 3))
   \<and> dbScan ex_ext () ex_tdef (request CMP_GE (on_a 2) CMP_GE (on_a 3)) tree1
       = Some (Some (Error ''bad range''), request CMP_GE (on_a 2) CMP_GE (on_a 3))
   \<and> iter (request CMP_GE (on_a 2) CMP_GE (on_a 3)) = None"
proof -
  let ?c = "request CMP_GE \<lparr>Cols = [''c''], Vals = [bval 2]\<rparr> CMP_LE (on_a 3)"
  have g: "GetTableDef ex_ext () ''U'' tree1 = None" by (simp add: ex_ext_def)
  have f: "findIndex ex_ext ex_tdef (Cols (Key1 ?c)) = Inl (Error ''no index found'')"
    by (simp add: ex_ext_def findIndex_spec_def ex_tdef_def request_def)
  have c: "Cmp1 ?c > 0 \<and> Cmp2 ?c < 0" by (simp add: request_def cmp_defs)
  have r: "Cmp1 (request CMP_GE (on_a 2) CMP_GE (on_a 3)) > 0 \<and> Cmp2 (request CMP_GE (on_a 2) CMP_GE (on_a 3)) > 0"
    by (simp add: request_def cmp_defs)
  have i: "iter (request CMP_GE (on_a 2) CMP_GE (on_a 3)) = None" by (simp add: request_def)
  from setup_failure_leaves_request [of ex_ext "()" "''U''" tree1 "request CMP_GE (on_a 2) CMP_LE (on_a 3)"] g
  have 1: "Scan ex_ext () ''U'' (request CMP_GE (on_a 2) CMP_LE (on_a 3)) tree1
       = Some (Some (Error ''table not found: U''), request CMP_GE (on_a 2) CMP_LE (on_a 3))"
    by simp
  from setup_failure_leaves_request [of ex_ext "()" _ tree1 ?c ex_tdef "Error ''no index found''"] f c
  have 2: "dbScan ex_ext () ex_tdef ?c tree1 = Some (Some (Error ''no index found''), ?c)"
    by auto
  from setup_failure_leaves_request [of ex_ext "()" _ tree1 "request CMP_GE (on_a 2) CMP_GE (on_a 3)" ex_tdef] r
  have 3: "dbScan ex_ext () ex_tdef (request CMP_GE (on_a 2) CMP_GE (on_a 3)) tree1
       = Some (Some (Error ''bad range''), request CMP_GE (on_a 2) CMP_GE (on_a 3))"
    by blast
  from g f 1 2 3 i show ?thesis by blast
qed

text \<open>
  C6. The spec resolves the index from the columns of the lower bound. \<open>dbScan\<close> resolves
  it from the columns of \<open>Key1\<close>, the start bound, in either direction. The descending
  request below starts at the upper bound \<open>(a, b) <= (4, 9)\<close> and ends at the lower bound
  \<open>a >= 2\<close>: the lower bound's column is the primary key (-1), and setup records index 1,
  the index on \<open>(a, b)\<close> that the columns of \<open>Key1\<close> select.
\<close>

theorem index_from_lower_bound_counterexample:
  "Cmp1 desc_request < 0 \<and> Cmp2 desc_request > 0
   \<and> findIndex ex_ext ex_tdef (Cols (Key2 desc_request)) = Inr (- 1)
   \<and> findIndex ex_ext ex_tdef (Cols (Key1 desc_request)) = Inr 1
   \<and> dbScan ex_ext () ex_tdef desc_request tree0 = Some (None, desc_scanner)
   \<and> indexNo desc_scanner = 1"
proof -
  have s: "Seek lookupLE tree0 [0, 0, 0, 3, 4, 9] (- 3) = Some (Inr \<lparr>tree = tree0, path = [], pos = []\<rparr>)"
    by (rule Seek_empty) (simp add: tree0_def)
  have e: "encodeKeyPartial ex_ext = ex_encode" "findIndex ex_ext = findIndex_spec"
    "nodeLookupLE ex_ext = lookupLE"
    by (simp_all add: ex_ext_def)
  have f: "findIndex_spec ex_tdef [''a''] = Inr (- 1)" "findIndex_spec ex_tdef [''a'', ''b''] = Inr 1"
    by (simp_all add: findIndex_spec_def ex_tdef_def)
  have t: "td_Cols ex_tdef = [''a'', ''b'']" "td_PKeys ex_tdef = 1"
    "td_Indexes ex_tdef = [[''b'', ''a''], [''a'', ''b'']]"
    "td_IndexPrefix ex_tdef = [[0, 0, 0, 2], [0, 0, 0, 3]]"
    by (simp_all add: ex_tdef_def)
  have "dbScan ex_ext () ex_tdef desc_request tree0 = Some (None, desc_scanner)"
    by (simp add: dbScan_def desc_request_def desc_scanner_def request_def on_a_def e f t s
        slice_to_def index_def ex_encode_def bval_def cmp_defs)
  then show ?thesis
    by (simp add: desc_request_def desc_scanner_def request_def on_a_def e f cmp_defs)
qed

text \<open>
  C6, as the code has it. Whenever setup succeeds, the index number it records in the
  scanner is the one \<open>findIndex\<close> resolves from the columns of \<open>Key1\<close>, the start bound:
  the lower bound of an ascending scan, the upper bound of a descending one.
\<close>

theorem index_resolved_from_Key1:
  assumes "dbScan E d td req t = Some (None, sc)"
  shows "findIndex E td (Cols (Key1 req)) = Inr (indexNo sc)"
proof -
  from assms have ok: "(Cmp1 req > 0 \<and> Cmp2 req < 0) \<or> (Cmp2 req > 0 \<and> Cmp1 req < 0)"
    by (cases "(Cmp1 req > 0 \<and> Cmp2 req < 0) \<or> (Cmp2 req > 0 \<and> Cmp1 req < 0)")
       (simp_all add: dbScan_def)
  show ?thesis
  proof (cases "findIndex E td (Cols (Key1 req))")
    case (Inl err)
    from dbScan_findIndex_error [OF ok Inl] assms show ?thesis by simp
  next
    case (Inr ino)
    from assms ok Inr have "indexNo sc = ino"
      by (auto simp: dbScan_def Let_def split: sum.splits option.splits prod.splits)
    then show ?thesis using Inr by simp
  qed
qed

theorem index_resolved_from_Key1_witness:
  "dbScan ex_ext () ex_tdef (request CMP_LE (on_a 3) CMP_GE (on_a 2)) tree2
     = Some (None, scanning CMP_LE 3 CMP_GE 2 \<lparr>tree = tree2, path = [inode, leaf123], pos = [0, 2]\<rparr>)
   \<and> findIndex ex_ext ex_tdef (Cols (Key1 (request CMP_LE (on_a 3) CMP_GE (on_a 2))))
     = Inr (indexNo (scanning CMP_LE 3 CMP_GE 2 \<lparr>tree = tree2, path = [inode, leaf123], pos = [0, 2]\<rparr>))"
proof -
  have d: "dbScan ex_ext () ex_tdef (request CMP_LE (on_a 3) CMP_GE (on_a 2)) tree2
     = Some (None, scanning CMP_LE 3 CMP_GE 2 \<lparr>tree = tree2, path = [inode, leaf123], pos = [0, 2]\<rparr>)"
    using Scan_desc_tree2 unfolding Scan_T .
  from d index_resolved_from_Key1 [OF d] show ?thesis by (rule conjI)
qed

subsection \<open>Invalid cursors\<close>

lemma Scanner_Next_invalid: "Scanner_Valid sc = Inr False \<Longrightarrow> Scanner_Next sc = Inr sc"
  by (simp add: Scanner_Next_def)

lemma Scanner_Deref_invalid:
  "Scanner_Valid sc = Inr False \<Longrightarrow> Scanner_Deref E sc rec t = Inr (rec, [])"
  by (simp add: Scanner_Deref_def)

text \<open>
  C8. The spec makes every dereference and step of an invalid cursor a safe no-op. The
  cursor that seeking the empty tree returns is invalid, and \<open>BIter.Deref\<close>, \<open>BIter.Next\<close>
  and \<open>BIter.Prev\<close> on it each index the empty path: a panic, not a no-op.
\<close>

theorem invalid_cursor_step_counterexample:
  "Seek lookupLE tree0 (pkey 2) CMP_GE = Some (Inr \<lparr>tree = tree0, path = [], pos = []\<rparr>)
   \<and> BIter_Valid \<lparr>tree = tree0, path = [], pos = []\<rparr> = Inr False
   \<and> BIter_Deref \<lparr>tree = tree0, path = [], pos = []\<rparr> = Inl IndexOutOfRange
   \<and> BIter_Next \<lparr>tree = tree0, path = [], pos = []\<rparr> = Inl IndexOutOfRange
   \<and> BIter_Prev \<lparr>tree = tree0, path = [], pos = []\<rparr> = Inl IndexOutOfRange"
  by (simp add: Seek_empty tree0_def BIter_Valid_empty BIter_Deref_empty BIter_Next_empty
      BIter_Prev_empty)

text \<open>
  C8, as the code has it. \<open>Scanner.Next\<close> and \<open>Scanner.Deref\<close> check \<open>Valid\<close> first: on a
  scanner that is not valid, and so on every scanner whose cursor is invalid, they return
  and leave the scanner and the record as they were, printing nothing. The operations of the
  cursor itself have \<open>Valid\<close> as their precondition: on the empty path \<open>BIter.Deref\<close>,
  \<open>BIter.Next\<close> and \<open>BIter.Prev\<close> panic with an index out of range.
\<close>

theorem invalid_scanner_noop:
  "(iter sc = Some it \<and> BIter_Valid it = Inr False \<longrightarrow> Scanner_Valid sc = Inr False)
   \<and> (Scanner_Valid sc = Inr False \<longrightarrow>
        Scanner_Next sc = Inr sc \<and> Scanner_Deref E sc rec t = Inr (rec, []))
   \<and> (path it = [] \<and> pos it = [] \<longrightarrow>
        BIter_Deref it = Inl IndexOutOfRange \<and> BIter_Next it = Inl IndexOutOfRange
        \<and> BIter_Prev it = Inl IndexOutOfRange)"
  by (simp add: Scanner_Valid_invalid_cursor Scanner_Next_invalid Scanner_Deref_invalid
      BIter_Deref_empty BIter_Next_empty BIter_Prev_empty)

theorem invalid_scanner_noop_witness:
  "iter (scanning CMP_GE 2 CMP_LE 3 \<lparr>tree = tree0, path = [], pos = []\<rparr>)
     = Some \<lparr>tree = tree0, path = [], pos = []\<rparr>
   \<and> BIter_Valid \<lparr>tree = tree0, path = [], pos = []\<rparr> = Inr False
   \<and> Scanner_Valid (scanning CMP_GE 2 CMP_LE 3 \<lparr>tree = tree0, path = [], pos = []\<rparr>) = Inr False
   \<and> Scanner_Next (scanning CMP_GE 2 CMP_LE 3 \<lparr>tree = tree0, path = [], pos = []\<rparr>)
     = Inr (scanning CMP_GE 2 CMP_LE 3 \<lparr>tree = tree0, path = [], pos = []\<rparr>)
   \<and> Scanner_Deref ex_ext (scanning CMP_GE 2 CMP_LE 3 \<lparr>tree = tree0, path = [], pos = []\<rparr>) (on_a 7) tree0
     = Inr (on_a 7, [])
   \<and> BIter_Deref \<lparr>tree = tree0, path = [], pos = []\<rparr> = Inl IndexOutOfRange
   \<and> BIter_Next \<lparr>tree = tree0, path = [], pos = []\<rparr> = Inl IndexOutOfRange
   \<and> BIter_Prev \<lparr>tree = tree0, path = [], pos = []\<rparr> = Inl IndexOutOfRange"
proof -
  let ?it = "\<lparr>tree = tree0, path = [], pos = []\<rparr>"
  let ?sc = "scanning CMP_GE 2 CMP_LE 3 ?it"
  have i: "iter ?sc = Some ?it" by (simp add: scanning_def)
  have v: "BIter_Valid ?it = Inr False" by (simp add: BIter_Valid_def)
  have p: "path ?it = [] \<and> pos ?it = []" by simp
  from invalid_scanner_noop [of ?sc ?it ex_ext "on_a 7" tree0] i v p show ?thesis by blast
qed

subsection \<open>Rows of a secondary index\<close>

text \<open>A loop that computes one element per item returns the list of the elements when no
  item panics.\<close>

lemma traverse_map:
  "(\<And>x. x \<in> set xs \<Longrightarrow> f x = Inr (g x)) \<Longrightarrow> traverse f xs = Inr (map g xs)"
  by (induction xs) simp_all

lemma traverse_Some:
  "map h xs = map Some vs \<Longrightarrow>
     traverse (\<lambda>x. case h x of None \<Rightarrow> Inl NilDereference | Some v \<Rightarrow> Inr v) xs = Inr vs"
proof (induction xs arbitrary: vs)
  case Nil
  then show ?case by simp
next
  case (Cons x xs)
  then obtain v vs' where vs: "vs = v # vs'" by (cases vs) auto
  with Cons.prems have "h x = Some v" "map h xs = map Some vs'" by simp_all
  with Cons.IH [of vs'] vs show ?case by simp
qed

text \<open>What the lines for an index entry compute when none of them panics: the slots are
  typed by the index's columns, filled by decoding the key behind its first four bytes,
  and the values of the primary-key columns are picked from them by name.\<close>

lemma index_entry_pk_eq:
  assumes ix: "index (td_Indexes td) ino = Inr ix"
    and types: "\<forall>col\<in>set ix. 0 \<le> ColIndex E td col \<and> ColIndex E td col < int (length (td_Types td))"
    and pre: "4 \<le> length key"
    and dec: "decodeValues E (drop 4 key)
                (map (\<lambda>col. zeroValue\<lparr>Type := td_Types td ! nat (ColIndex E td col)\<rparr>) ix) = Inr ival"
    and pk: "0 \<le> td_PKeys td" "td_PKeys td \<le> int (length (td_Cols td))"
    and get: "map (Record_Get \<lparr>Cols = ix, Vals = ival\<rparr>) (take (nat (td_PKeys td)) (td_Cols td))
                = map Some pkvals"
  shows "index_entry_pk E td ino key
           = Inr \<lparr>Cols = take (nat (td_PKeys td)) (td_Cols td), Vals = pkvals\<rparr>"
proof -
  have "ebind (index (td_Types td) (ColIndex E td col)) (\<lambda>ty. Inr (zeroValue\<lparr>Type := ty\<rparr>))
        = Inr (zeroValue\<lparr>Type := td_Types td ! nat (ColIndex E td col)\<rparr>)"
    if "col \<in> set ix" for col
    using types that by (simp add: index_def)
  then have slots: "traverse (\<lambda>col. ebind (index (td_Types td) (ColIndex E td col)) (\<lambda>ty.
                           Inr (zeroValue\<lparr>Type := ty\<rparr>))) ix
        = Inr (map (\<lambda>col. zeroValue\<lparr>Type := td_Types td ! nat (ColIndex E td col)\<rparr>) ix)"
    by (rule traverse_map)
  have k4: "slice_from key 4 = Inr (drop 4 key)" using pre by (simp add: slice_from_def)
  have cols: "slice_to (td_Cols td) (td_PKeys td) = Inr (take (nat (td_PKeys td)) (td_Cols td))"
    using pk by (simp add: slice_to_def)
  show ?thesis
    unfolding index_entry_pk_def
    by (simp add: ix slots k4 dec cols traverse_Some [OF get])
qed

text \<open>
  C9. On a scan of a secondary index at a valid position, \<open>Scanner.Deref\<close> takes the index's
  columns, types one slot for each, decodes the cursor key behind its first four bytes into
  those slots, picks the values of the primary-key columns from them by name, and looks up
  the record of these columns and values. When that lookup misses, with or without an error
  of its own, \<open>Scanner.Deref\<close> returns normally: the caller gets the record as the lookup
  left it and at most one printed line, never an error. The scan is not aborted: a round
  \<open>Deref\<close>, \<open>Next\<close> of the loop ends as the step of the cursor ends, in the direction of
  \<open>Cmp1\<close>, with the scanner on the next position.
\<close>

theorem index_deref_lookup_miss:
  assumes valid: "Scanner_Valid sc = Inr True" and ino: "0 \<le> indexNo sc"
    and td: "tdef sc = Some td" and it: "iter sc = Some it"
    and key: "BIter_Deref it = Inr (key, val)"
    and ix: "index (td_Indexes td) (indexNo sc) = Inr ix"
    and types: "\<forall>col\<in>set ix. 0 \<le> ColIndex E td col \<and> ColIndex E td col < int (length (td_Types td))"
    and pre: "4 \<le> length key"
    and dec: "decodeValues E (drop 4 key)
                (map (\<lambda>col. zeroValue\<lparr>Type := td_Types td ! nat (ColIndex E td col)\<rparr>) ix) = Inr ival"
    and pk: "0 \<le> td_PKeys td" "td_PKeys td \<le> int (length (td_Cols td))"
    and get: "map (Record_Get \<lparr>Cols = ix, Vals = ival\<rparr>) (take (nat (td_PKeys td)) (td_Cols td))
                = map Some pkvals"
    and miss: "dbGet E (db sc) td \<lparr>Cols = take (nat (td_PKeys td)) (td_Cols td), Vals = pkvals\<rparr> t
                = Inr ((False, err), rec')"
  shows "Scanner_Deref E sc rec t
           = Inr (rec', if err \<noteq> None then [''Error getting record from DB''] else [])
       \<and> Deref_then_Next E sc rec t
           = ebind (if Cmp1 sc > 0 then BIter_Next it else BIter_Prev it) (\<lambda>it'.
               Inr (sc\<lparr>iter := Some it'\<rparr>, rec',
                    if err \<noteq> None then [''Error getting record from DB''] else []))"
proof -
  have e: "index_entry_pk E td (indexNo sc) key
             = Inr \<lparr>Cols = take (nat (td_PKeys td)) (td_Cols td), Vals = pkvals\<rparr>"
    by (rule index_entry_pk_eq [OF ix types pre dec pk get])
  have d: "Scanner_Deref E sc rec t
           = Inr (rec', if err \<noteq> None then [''Error getting record from DB''] else [])"
    using valid ino td it key e miss by (simp add: Scanner_Deref_def)
  have n: "Scanner_Next sc
           = ebind (if Cmp1 sc > 0 then BIter_Next it else BIter_Prev it) (\<lambda>it'.
               Inr (sc\<lparr>iter := Some it'\<rparr>))"
    using valid it by (simp add: Scanner_Next_def)
  have "Deref_then_Next E sc rec t
           = ebind (if Cmp1 sc > 0 then BIter_Next it else BIter_Prev it) (\<lambda>it'.
               Inr (sc\<lparr>iter := Some it'\<rparr>, rec',
                    if err \<noteq> None then [''Error getting record from DB''] else []))"
    unfolding Deref_then_Next_def d n
    by (cases "if Cmp1 sc > 0 then BIter_Next it else BIter_Prev it") simp_all
  with d show ?thesis by (rule conjI)
qed

theorem index_deref_lookup_miss_witness:
  "Scanner_Valid ix_scanner = Inr True \<and> 0 \<le> indexNo ix_scanner
   \<and> tdef ix_scanner = Some ex_tdef
   \<and> iter ix_scanner = Some \<lparr>tree = tree_ix, path = [leaf_ix], pos = [0]\<rparr>
   \<and> BIter_Deref \<lparr>tree = tree_ix, path = [leaf_ix], pos = [0]\<rparr> = Inr ([0, 0, 0, 2, 3, 2], [])
   \<and> index (td_Indexes ex_tdef) (indexNo ix_scanner) = Inr [''b'', ''a'']
   \<and> ColIndex ex_ext ex_tdef ''b'' = 1 \<and> ColIndex ex_ext ex_tdef ''a'' = 0
   \<and> length (td_Types ex_tdef) = 2
   \<and> 4 \<le> length [0, 0, 0, 2, 3, 2 :: 8 word]
   \<and> decodeValues ex_ext (drop 4 [0, 0, 0, 2, 3, 2])
        (map (\<lambda>col. zeroValue\<lparr>Type := td_Types ex_tdef ! nat (ColIndex ex_ext ex_tdef col)\<rparr>) [''b'', ''a''])
        = Inr [bval 3, bval 2]
   \<and> 0 \<le> td_PKeys ex_tdef \<and> td_PKeys ex_tdef \<le> int (length (td_Cols ex_tdef))
   \<and> map (Record_Get \<lparr>Cols = [''b'', ''a''], Vals = [bval 3, bval 2]\<rparr>)
        (take (nat (td_PKeys ex_tdef)) (td_Cols ex_tdef)) = map Some [bval 2]
   \<and> dbGet ex_ext (db ix_scanner) ex_tdef
        \<lparr>Cols = take (nat (td_PKeys ex_tdef)) (td_Cols ex_tdef), Vals = [bval 2]\<rparr> tree_ix
        = Inr ((False, None), on_a 2)
   \<and> Scanner_Deref ex_ext ix_scanner (on_a 7) tree_ix = Inr (on_a 2, [])
   \<and> Deref_then_Next ex_ext ix_scanner (on_a 7) tree_ix
        = Inr (ix_scanner\<lparr>iter := Some \<lparr>tree = tree_ix, path = [leaf_ix], pos = [1]\<rparr>\<rparr>, on_a 2, [])
   \<and> Scanner_Valid (ix_scanner\<lparr>iter := Some \<lparr>tree = tree_ix, path = [leaf_ix], pos = [1]\<rparr>\<rparr>) = Inr True"
proof -
  let ?it = "\<lparr>tree = tree_ix, path = [leaf_ix], pos = [0]\<rparr>"
  let ?it' = "\<lparr>tree = tree_ix, path = [leaf_ix], pos = [1]\<rparr>"
  have v: "Scanner_Valid ix_scanner = Inr True"
    by (simp add: ix_scanner_def Scanner_Valid_def cmpOK_def cursor_defs cmp_defs node_defs
        leaf_ix_def tree_ix_def)
  have n: "0 \<le> indexNo ix_scanner" "tdef ix_scanner = Some ex_tdef" "iter ix_scanner = Some ?it"
    by (simp_all add: ix_scanner_def)
  have k: "BIter_Deref ?it = Inr ([0, 0, 0, 2, 3, 2], [])"
    by (simp add: cursor_defs node_defs leaf_ix_def tree_ix_def)
  have i: "index (td_Indexes ex_tdef) (indexNo ix_scanner) = Inr [''b'', ''a'']"
    by (simp add: ix_scanner_def ex_tdef_def index_def)
  have ty: "\<forall>col\<in>set [''b'', ''a''].
         0 \<le> ColIndex ex_ext ex_tdef col \<and> ColIndex ex_ext ex_tdef col < int (length (td_Types ex_tdef))"
    by (simp add: ex_ext_def ex_tdef_def ex_ColIndex_def)
  have ci: "ColIndex ex_ext ex_tdef ''b'' = 1" "ColIndex ex_ext ex_tdef ''a'' = 0"
    "length (td_Types ex_tdef) = 2"
    by (simp_all add: ex_ext_def ex_tdef_def ex_ColIndex_def)
  have p: "4 \<le> length [0, 0, 0, 2, 3, 2 :: 8 word]" by simp
  have dc: "decodeValues ex_ext (drop 4 [0, 0, 0, 2, 3, 2])
        (map (\<lambda>col. zeroValue\<lparr>Type := td_Types ex_tdef ! nat (ColIndex ex_ext ex_tdef col)\<rparr>) [''b'', ''a''])
        = Inr [bval 3, bval 2]"
    by (simp add: ex_ext_def ex_tdef_def ex_ColIndex_def ex_decode_def zeroValue_def bval_def)
  have pk: "0 \<le> td_PKeys ex_tdef" "td_PKeys ex_tdef \<le> int (length (td_Cols ex_tdef))"
    by (simp_all add: ex_tdef_def)
  have g: "map (Record_Get \<lparr>Cols = [''b'', ''a''], Vals = [bval 3, bval 2]\<rparr>)
        (take (nat (td_PKeys ex_tdef)) (td_Cols ex_tdef)) = map Some [bval 2]"
    by (simp add: ex_tdef_def Record_Get_def)
  have m: "dbGet ex_ext (db ix_scanner) ex_tdef
        \<lparr>Cols = take (nat (td_PKeys ex_tdef)) (td_Cols ex_tdef), Vals = [bval 2]\<rparr> tree_ix
        = Inr ((False, None), on_a 2)"
    by (simp add: ex_ext_def ex_tdef_def on_a_def)
  have c: "Cmp1 ix_scanner > 0" by (simp add: ix_scanner_def cmp_defs)
  have s: "BIter_Next ?it = Inr ?it'"
    by (simp add: cursor_defs node_defs leaf_ix_def tree_ix_def)
  have v': "Scanner_Valid (ix_scanner\<lparr>iter := Some ?it'\<rparr>) = Inr True"
    by (simp add: ix_scanner_def Scanner_Valid_def cmpOK_def cursor_defs cmp_defs node_defs
        leaf_ix_def tree_ix_def)
  from index_deref_lookup_miss [OF v n k i ty p dc pk g m, of "on_a 7"] c s
  have r: "Scanner_Deref ex_ext ix_scanner (on_a 7) tree_ix = Inr (on_a 2, [])"
    "Deref_then_Next ex_ext ix_scanner (on_a 7) tree_ix = Inr (ix_scanner\<lparr>iter := Some ?it'\<rparr>, on_a 2, [])"
    by simp_all
  from v n k i ci p dc pk g m r v' show ?thesis by blast
qed

end
